theory Spec2Isabelle
  imports Complex_Main "HOL-Library.Multiset"
begin

section \<open>Discrete-event simulation of a fast-food queueing network\<close>

text \<open>
  A shallow embedding of \<^verbatim>\<open>src/simulacion_colas.cpp\<close>. Every class of the source is a
  record, every method a function that takes the object and returns the updated one.
  A \<^verbatim>\<open>double\<close> is a \<^typ>\<open>real\<close> (exact arithmetic: rounding, infinities and NaN are outside
  the model), an \<^verbatim>\<open>int\<close> is an \<^typ>\<open>int\<close>, a \<^verbatim>\<open>std::vector\<close> or \<^verbatim>\<open>std::queue\<close> is a list.
  Reading a vector outside its bounds is undefined behaviour in the source and the error
  \<open>OutOfRange\<close> here; \<^verbatim>\<open>vector::resize\<close> with a negative count throws and is the error
  \<open>LengthError\<close>.
\<close>

subsection \<open>Enumerations\<close>

abbreviation (input) CAJAS :: int where "CAJAS \<equiv> 0"
abbreviation (input) REFRESCOS :: int where "REFRESCOS \<equiv> 1"
abbreviation (input) FREIDORA :: int where "FREIDORA \<equiv> 2"
abbreviation (input) POSTRES :: int where "POSTRES \<equiv> 3"
abbreviation (input) POLLO :: int where "POLLO \<equiv> 4"
abbreviation (input) NUM_ESTACIONES :: nat where "NUM_ESTACIONES \<equiv> 5"

datatype TipoEvento = LLEGADA | FIN_SERVICIO

datatype error = OutOfRange | LengthError

definition bind :: "error + 'a \<Rightarrow> ('a \<Rightarrow> error + 'b) \<Rightarrow> error + 'b" where
  "bind m f = (case m of Inl e \<Rightarrow> Inl e | Inr x \<Rightarrow> f x)"

text \<open>\<^verbatim>\<open>v[i]\<close> on a \<^verbatim>\<open>std::vector\<close>, with the index an \<^verbatim>\<open>int\<close> as in the source.\<close>

definition vec_at :: "'a list \<Rightarrow> int \<Rightarrow> error + 'a" where
  "vec_at xs i = (if 0 \<le> i \<and> i < int (length xs) then Inr (xs ! nat i) else Inl OutOfRange)"

subsection \<open>Evento, Cliente\<close>

record Evento =
  tiempo :: real
  tipo :: TipoEvento
  idCliente :: int
  idEstacion :: int

record Cliente =
  c_id :: int
  tiempoLlegada :: real
  tiempoEsperaTotal :: real
  tiempoServicioTotal :: real
  c_estaciones :: "int list"
  numOrdenes :: int
  indiceEstacionActual :: int
  tiempoEntradaCola :: real

definition Cliente_ctor :: Cliente where
  "Cliente_ctor = \<lparr>c_id = 0, tiempoLlegada = 0, tiempoEsperaTotal = 0, tiempoServicioTotal = 0,
     c_estaciones = [], numOrdenes = 0, indiceEstacionActual = 0, tiempoEntradaCola = 0\<rparr>"

definition getTiempoTotal :: "Cliente \<Rightarrow> real" where
  "getTiempoTotal c = tiempoEsperaTotal c + tiempoServicioTotal c"

subsection \<open>GeneradorAleatorio\<close>

text \<open>
  The generator \<^verbatim>\<open>std::mt19937\<close> and the distributions of \<^verbatim>\<open><random>\<close> are library code:
  they are a parameter of the model. \<open>'g\<close> is the state of the generator; each distribution
  takes its parameters and the state, and returns the draw and the next state.
\<close>

record 'g Random =
  mt19937 :: "nat \<Rightarrow> 'g"
  exponential_distribution :: "real \<Rightarrow> 'g \<Rightarrow> real \<times> 'g"
  normal_distribution :: "real \<Rightarrow> real \<Rightarrow> 'g \<Rightarrow> real \<times> 'g"
  binomial_distribution :: "int \<Rightarrow> real \<Rightarrow> 'g \<Rightarrow> int \<times> 'g"
  geometric_distribution :: "real \<Rightarrow> 'g \<Rightarrow> int \<times> 'g"
  uniform_real_distribution :: "real \<Rightarrow> real \<Rightarrow> 'g \<Rightarrow> real \<times> 'g"

text \<open>\<^verbatim>\<open>round\<close> of \<^verbatim>\<open><cmath>\<close>: to the nearest integer, halfway cases away from zero.\<close>

definition c_round :: "real \<Rightarrow> int" where
  "c_round x = (if 0 \<le> x then \<lfloor>x + 1 / 2\<rfloor> else \<lceil>x - 1 / 2\<rceil>)"

definition tiempoEntreLlegadas :: "'g Random \<Rightarrow> real \<Rightarrow> 'g \<Rightarrow> real \<times> 'g" where
  "tiempoEntreLlegadas D lambda g = exponential_distribution D lambda g"

definition tiempoServicioExp :: "'g Random \<Rightarrow> real \<Rightarrow> 'g \<Rightarrow> real \<times> 'g" where
  "tiempoServicioExp D mu g = exponential_distribution D mu g"

definition tiempoServicioNormDisc :: "'g Random \<Rightarrow> real \<Rightarrow> real \<Rightarrow> 'g \<Rightarrow> int \<times> 'g" where
  "tiempoServicioNormDisc D media desvEst g =
     (case normal_distribution D media desvEst g of (x, g') \<Rightarrow>
        let valor = c_round x in (max 1 valor, g'))"

definition tiempoServicioBinom :: "'g Random \<Rightarrow> int \<Rightarrow> real \<Rightarrow> 'g \<Rightarrow> int \<times> 'g" where
  "tiempoServicioBinom D n p g =
     (case binomial_distribution D n p g of (valor, g') \<Rightarrow> (max 1 valor, g'))"

definition tiempoServicioGeom :: "'g Random \<Rightarrow> real \<Rightarrow> 'g \<Rightarrow> int \<times> 'g" where
  "tiempoServicioGeom D p g =
     (case geometric_distribution D p g of (valor, g') \<Rightarrow> (valor + 1, g'))"

definition numeroOrdenes :: "'g Random \<Rightarrow> 'g \<Rightarrow> int \<times> 'g" where
  "numeroOrdenes D g =
     (case binomial_distribution D 5 (4 / 10) g of (valor, g') \<Rightarrow> (max 1 valor, g'))"

definition debeVisitar :: "'g Random \<Rightarrow> real \<Rightarrow> 'g \<Rightarrow> bool \<times> 'g" where
  "debeVisitar D proba g =
     (case uniform_real_distribution D 0 1 g of (u, g') \<Rightarrow> (u < proba, g'))"

subsection \<open>Estacion\<close>

record Estacion =
  e_id :: int
  numServidores :: int
  colaEspera :: "int list"
  servidorOcupado :: "bool list"
  tiempoTotalOcupado :: real
  tiempoUltimoCambio :: real
  totalAtendidos :: int

text \<open>The constructor: \<^verbatim>\<open>servidorOcupado.resize(servidores, false)\<close> converts the count to
  \<^verbatim>\<open>size_t\<close>, so a negative count asks for more than \<^verbatim>\<open>max_size()\<close> and throws.\<close>

definition Estacion_ctor :: "int \<Rightarrow> int \<Rightarrow> error + Estacion" where
  "Estacion_ctor idEst servidores =
     (if servidores < 0 then Inl LengthError
      else Inr \<lparr>e_id = idEst, numServidores = servidores, colaEspera = [],
                servidorOcupado = replicate (nat servidores) False,
                tiempoTotalOcupado = 0, tiempoUltimoCambio = 0, totalAtendidos = 0\<rparr>)"

definition agregarCliente :: "Estacion \<Rightarrow> int \<Rightarrow> real \<Rightarrow> Estacion" where
  "agregarCliente e idCli t = e\<lparr>colaEspera := colaEspera e @ [idCli]\<rparr>"

definition hayServidorDisponible :: "Estacion \<Rightarrow> bool" where
  "hayServidorDisponible e = (False \<in> set (servidorOcupado e))"

text \<open>The index of the first server whose flag is \<open>b\<close>: the \<^verbatim>\<open>for\<close> loops of
  \<^verbatim>\<open>iniciarServicio\<close> and \<^verbatim>\<open>finalizarServicio\<close>.\<close>

fun primerServidor :: "bool \<Rightarrow> bool list \<Rightarrow> nat option" where
  "primerServidor b [] = None"
| "primerServidor b (x # xs) =
     (if x = b then Some 0 else map_option Suc (primerServidor b xs))"

definition servidoresOcupados :: "bool list \<Rightarrow> nat" where
  "servidoresOcupados v = length (filter (\<lambda>ocupado. ocupado) v)"

definition actualizarTiempoOcupado :: "Estacion \<Rightarrow> real \<Rightarrow> Estacion" where
  "actualizarTiempoOcupado e t =
     e\<lparr>tiempoTotalOcupado := tiempoTotalOcupado e
          + real (servidoresOcupados (servidorOcupado e)) * (t - tiempoUltimoCambio e),
       tiempoUltimoCambio := t\<rparr>"

text \<open>\<^verbatim>\<open>Estacion::iniciarServicio\<close>: the id of the customer now in service, or -1.\<close>

definition Estacion_iniciarServicio :: "Estacion \<Rightarrow> real \<Rightarrow> int \<times> Estacion" where
  "Estacion_iniciarServicio e t =
     (case colaEspera e of
        [] \<Rightarrow> (- 1, e)
      | idCli # resto \<Rightarrow>
          (case primerServidor False (servidorOcupado e) of
             None \<Rightarrow> (- 1, e)
           | Some i \<Rightarrow>
               (idCli, actualizarTiempoOcupado
                  (e\<lparr>colaEspera := resto, servidorOcupado := (servidorOcupado e)[i := True]\<rparr>) t)))"

definition finalizarServicio :: "Estacion \<Rightarrow> real \<Rightarrow> Estacion" where
  "finalizarServicio e t =
     (case primerServidor True (servidorOcupado e) of
        None \<Rightarrow> e
      | Some i \<Rightarrow>
          (let e' = actualizarTiempoOcupado
                      (e\<lparr>servidorOcupado := (servidorOcupado e)[i := False]\<rparr>) t
           in e'\<lparr>totalAtendidos := totalAtendidos e' + 1\<rparr>))"

definition getUtilizacion :: "Estacion \<Rightarrow> real \<Rightarrow> real" where
  "getUtilizacion e tiempoTotal =
     (if tiempoTotal = 0 \<or> numServidores e = 0 then 0
      else tiempoTotalOcupado e / (real_of_int (numServidores e) * tiempoTotal))"

definition getLongitudCola :: "Estacion \<Rightarrow> int" where
  "getLongitudCola e = int (length (colaEspera e))"

definition estaVacia :: "Estacion \<Rightarrow> bool" where
  "estaVacia e = (colaEspera e = [])"

subsection \<open>ConfiguracionServidores, Estadisticas\<close>

record ConfiguracionServidores =
  cajas :: int
  refrescos :: int
  freidora :: int
  postres :: int
  pollo :: int

record Estadisticas =
  tiempoEsperaPromedio :: real
  varianzaTiempoEspera :: real
  utilizacionEstaciones :: "real list"
  totalClientes :: int
  tiempoSistemaPromedio :: real

subsection \<open>SimulacionColas\<close>

text \<open>
  \<^verbatim>\<open>colaEventos\<close> is a \<^verbatim>\<open>std::priority_queue<Evento, vector<Evento>, greater<Evento>>\<close>:
  a vector that the library keeps as a binary heap. It is the list of that vector here, and
  \<open>push\<close>, \<open>top\<close> and \<open>pop\<close>, defined below, are the algorithms of libstdc++ (the build uses
  g++), so that events of equal time leave the queue in the order they do in the program.
\<close>

record 'g SimulacionColas =
  colaEventos :: "Evento list"
  estaciones :: "Estacion list"
  clientes :: "Cliente list"
  clientesCompletados :: "Cliente list"
  rng :: 'g
  tiempoActual :: real
  duracionSimulacion :: real
  tiempoFinalReal :: real
  siguienteIdCliente :: int
  tasaLlegada :: real
  probabilidadesEstaciones :: "real list"

text \<open>The comparison of the queue: \<^verbatim>\<open>greater<Evento>\<close>, that is \<^verbatim>\<open>Evento::operator>\<close>, which
  looks at \<open>tiempo\<close> alone.\<close>

definition greater :: "Evento \<Rightarrow> Evento \<Rightarrow> bool" where
  "greater a b = (tiempo a > tiempo b)"

text \<open>\<^verbatim>\<open>std::__push_heap\<close>: the hole moves up while its parent compares greater than the
  value, then takes the value.\<close>

function push_heap_aux :: "Evento list \<Rightarrow> nat \<Rightarrow> nat \<Rightarrow> Evento \<Rightarrow> Evento list" where
  "push_heap_aux v holeIndex topIndex val =
     (let parent = (holeIndex - 1) div 2 in
      if holeIndex > topIndex \<and> greater (v ! parent) val
      then push_heap_aux (v[holeIndex := v ! parent]) parent topIndex val
      else v[holeIndex := val])"
  by pat_completeness auto
termination
  by (relation "measure (\<lambda>(v, holeIndex, topIndex, val). holeIndex)") auto

text \<open>The loop of \<^verbatim>\<open>std::__adjust_heap\<close>: while the hole has two children, the child that
  does not compare greater than the other moves up into the hole. \<open>holeIndex\<close> and
  \<open>secondChild\<close> are equal at the head of the loop, so the model keeps one of them.\<close>

function adjust_heap_loop :: "Evento list \<Rightarrow> nat \<Rightarrow> nat \<Rightarrow> Evento list \<times> nat" where
  "adjust_heap_loop v len secondChild =
     (if secondChild < (len - 1) div 2 then
        (let sc = 2 * (secondChild + 1);
             sc' = (if greater (v ! sc) (v ! (sc - 1)) then sc - 1 else sc)
         in adjust_heap_loop (v[secondChild := v ! sc']) len sc')
      else (v, secondChild))"
  by pat_completeness auto
termination
  by (relation "measure (\<lambda>(v, len, secondChild). len - secondChild)") (auto simp: Let_def)

text \<open>\<^verbatim>\<open>std::__adjust_heap\<close>: after the loop a hole whose only child is the last element
  takes that child, and the value is pushed up from the hole. The library computes
  \<open>(len - 2) / 2\<close> on signed integers, where it is negative for \<open>len < 2\<close>.\<close>

definition adjust_heap :: "Evento list \<Rightarrow> nat \<Rightarrow> nat \<Rightarrow> Evento \<Rightarrow> Evento list" where
  "adjust_heap v holeIndex len val =
     (case adjust_heap_loop v len holeIndex of (v1, secondChild) \<Rightarrow>
        if len mod 2 = 0 \<and> 2 \<le> len \<and> secondChild = (len - 2) div 2
        then (let sc = 2 * (secondChild + 1)
              in push_heap_aux (v1[secondChild := v1 ! (sc - 1)]) (sc - 1) holeIndex val)
        else push_heap_aux v1 secondChild holeIndex val)"

text \<open>\<^verbatim>\<open>priority_queue::push\<close>: \<^verbatim>\<open>c.push_back(x); std::push_heap(c.begin(), c.end(), comp)\<close>.\<close>

definition push :: "Evento list \<Rightarrow> Evento \<Rightarrow> Evento list" where
  "push q e = (let c = q @ [e] in push_heap_aux c (length c - 1) 0 (c ! (length c - 1)))"

text \<open>\<^verbatim>\<open>priority_queue::top\<close>: \<^verbatim>\<open>c.front()\<close>. On an empty queue the source has undefined
  behaviour; the engine reads the top of a queue that is not empty only.\<close>

definition top :: "Evento list \<Rightarrow> Evento" where
  "top q = hd q"

text \<open>\<^verbatim>\<open>priority_queue::pop\<close>: \<^verbatim>\<open>std::pop_heap(c.begin(), c.end(), comp); c.pop_back()\<close>.
  With more than one element \<^verbatim>\<open>pop_heap\<close> saves the last element, writes the front into
  the last place, which \<^verbatim>\<open>pop_back\<close> then removes, and adjusts the heap of the other
  elements from the root with the saved value.\<close>

definition pop :: "Evento list \<Rightarrow> Evento list" where
  "pop q =
     (if length q > 1
      then adjust_heap (butlast q) 0 (length q - 1) (last q)
      else butlast q)"

definition SimulacionColas_ctor :: "'g Random \<Rightarrow> real \<Rightarrow> real \<Rightarrow> nat \<Rightarrow> 'g SimulacionColas" where
  "SimulacionColas_ctor D duracion lambda semilla =
     \<lparr>colaEventos = [], estaciones = [], clientes = [], clientesCompletados = [],
      rng = mt19937 D semilla, tiempoActual = 0, duracionSimulacion = duracion,
      tiempoFinalReal = 0, siguienteIdCliente = 0, tasaLlegada = lambda,
      probabilidadesEstaciones = [1, 9 / 10, 7 / 10, 25 / 100, 3 / 10]\<rparr>"

definition inicializar ::
  "'g Random \<Rightarrow> ConfiguracionServidores \<Rightarrow> 'g SimulacionColas \<Rightarrow> error + 'g SimulacionColas" where
  "inicializar D config s =
     bind (Estacion_ctor CAJAS (cajas config)) (\<lambda>e0.
     bind (Estacion_ctor REFRESCOS (refrescos config)) (\<lambda>e1.
     bind (Estacion_ctor FREIDORA (freidora config)) (\<lambda>e2.
     bind (Estacion_ctor POSTRES (postres config)) (\<lambda>e3.
     bind (Estacion_ctor POLLO (pollo config)) (\<lambda>e4.
       case tiempoEntreLlegadas D (tasaLlegada s) (rng s) of (primeraLlegada, g') \<Rightarrow>
         Inr (s\<lparr>estaciones := [e0, e1, e2, e3, e4], clientes := [], clientesCompletados := [],
                tiempoActual := 0, siguienteIdCliente := 0, rng := g',
                colaEventos := push []
                  \<lparr>tiempo = primeraLlegada, tipo = LLEGADA, idCliente = - 1, idEstacion = - 1\<rparr>\<rparr>))))))"

definition getTiempoServicio :: "'g Random \<Rightarrow> int \<Rightarrow> 'g \<Rightarrow> real \<times> 'g" where
  "getTiempoServicio D idEst g =
     (if idEst = CAJAS then tiempoServicioExp D (4 / 10) g
      else if idEst = REFRESCOS then tiempoServicioExp D (1333 / 1000) g
      else if idEst = FREIDORA then
        (case tiempoServicioNormDisc D 3 (5 / 10) g of (v, g') \<Rightarrow> (real_of_int v, g'))
      else if idEst = POSTRES then
        (case tiempoServicioBinom D 5 (6 / 10) g of (v, g') \<Rightarrow> (real_of_int v, g'))
      else if idEst = POLLO then
        (case tiempoServicioGeom D (1 / 10) g of (v, g') \<Rightarrow> (real_of_int v, g'))
      else (1, g))"

text \<open>\<^verbatim>\<open>SimulacionColas::iniciarServicio\<close>. The customer is a reference into \<open>clientes\<close>: the
  model reads it, updates it and writes it back.\<close>

definition iniciarServicio ::
  "'g Random \<Rightarrow> int \<Rightarrow> 'g SimulacionColas \<Rightarrow> error + 'g SimulacionColas" where
  "iniciarServicio D idEst s =
     bind (vec_at (estaciones s) idEst) (\<lambda>est.
       case Estacion_iniciarServicio est (tiempoActual s) of (idCli, est') \<Rightarrow>
         let s1 = s\<lparr>estaciones := (estaciones s)[nat idEst := est']\<rparr> in
         if idCli < 0 then Inr s1
         else
           bind (vec_at (clientes s1) idCli) (\<lambda>c.
             let tiempoEspera = tiempoActual s1 - tiempoEntradaCola c;
                 c1 = c\<lparr>tiempoEsperaTotal := tiempoEsperaTotal c + tiempoEspera\<rparr>
             in case getTiempoServicio D idEst (rng s1) of (tiempoServicio, g') \<Rightarrow>
               let c2 = c1\<lparr>tiempoServicioTotal := tiempoServicioTotal c1 + tiempoServicio\<rparr>;
                   tiempoFin = tiempoActual s1 + tiempoServicio
               in Inr (s1\<lparr>clientes := (clientes s1)[nat idCli := c2], rng := g',
                          colaEventos := push (colaEventos s1)
                            \<lparr>tiempo = tiempoFin, tipo = FIN_SERVICIO,
                             idCliente = idCli, idEstacion = idEst\<rparr>\<rparr>)))"

text \<open>The block that follows each \<^verbatim>\<open>agregarCliente\<close> in the source: the service starts
  at once if the station, already read at this index, has a free server.\<close>

definition iniciarSiDisponible ::
  "'g Random \<Rightarrow> int \<Rightarrow> 'g SimulacionColas \<Rightarrow> error + 'g SimulacionColas" where
  "iniciarSiDisponible D idEst s =
     (if hayServidorDisponible (estaciones s ! nat idEst) then iniciarServicio D idEst s else Inr s)"

text \<open>The route of a new customer: CAJAS, then one trial for each of the other stations,
  in the order of the source.\<close>

definition generarRuta :: "'g Random \<Rightarrow> real list \<Rightarrow> 'g \<Rightarrow> error + (int list \<times> 'g)" where
  "generarRuta D probs g0 =
     bind (vec_at probs REFRESCOS) (\<lambda>p1. case debeVisitar D p1 g0 of (b1, g1) \<Rightarrow>
     bind (vec_at probs FREIDORA) (\<lambda>p2. case debeVisitar D p2 g1 of (b2, g2) \<Rightarrow>
     bind (vec_at probs POSTRES) (\<lambda>p3. case debeVisitar D p3 g2 of (b3, g3) \<Rightarrow>
     bind (vec_at probs POLLO) (\<lambda>p4. case debeVisitar D p4 g3 of (b4, g4) \<Rightarrow>
       Inr ([CAJAS] @ (if b1 then [REFRESCOS] else []) @ (if b2 then [FREIDORA] else [])
              @ (if b3 then [POSTRES] else []) @ (if b4 then [POLLO] else []), g4)))))"

text \<open>\<^verbatim>\<open>procesarLlegada\<close>, in the three blocks of the source. The first creates the
  customer, draws the number of orders and the route, appends the customer to \<open>clientes\<close> and
  to the queue of CAJAS.\<close>

definition crearCliente :: "'g Random \<Rightarrow> 'g SimulacionColas \<Rightarrow> error + 'g SimulacionColas" where
  "crearCliente D s =
     (case numeroOrdenes D (rng s) of (ordenes, g0) \<Rightarrow>
      bind (generarRuta D (probabilidadesEstaciones s) g0) (\<lambda>(ruta, g4).
        let c = Cliente_ctor\<lparr>c_id := siguienteIdCliente s, tiempoLlegada := tiempoActual s,
                  numOrdenes := ordenes, indiceEstacionActual := 0,
                  tiempoEntradaCola := tiempoActual s, c_estaciones := ruta\<rparr>;
            s1 = s\<lparr>siguienteIdCliente := siguienteIdCliente s + 1, rng := g4,
                   clientes := clientes s @ [c]\<rparr>
        in
        bind (vec_at (estaciones s1) CAJAS) (\<lambda>est.
          Inr (s1\<lparr>estaciones :=
                 (estaciones s1)[nat CAJAS := agregarCliente est (c_id c) (tiempoActual s1)]\<rparr>))))"

text \<open>The last block: the next arrival is drawn, and scheduled only if it falls before the
  end of the arrival period.\<close>

definition programarLlegada :: "'g Random \<Rightarrow> 'g SimulacionColas \<Rightarrow> 'g SimulacionColas" where
  "programarLlegada D s =
     (case tiempoEntreLlegadas D (tasaLlegada s) (rng s) of (gap, g5) \<Rightarrow>
        let siguienteLlegada = tiempoActual s + gap;
            s4 = s\<lparr>rng := g5\<rparr>
        in if siguienteLlegada < duracionSimulacion s4
           then s4\<lparr>colaEventos := push (colaEventos s4)
                   \<lparr>tiempo = siguienteLlegada, tipo = LLEGADA, idCliente = - 1, idEstacion = - 1\<rparr>\<rparr>
           else s4)"

definition procesarLlegada :: "'g Random \<Rightarrow> 'g SimulacionColas \<Rightarrow> error + 'g SimulacionColas" where
  "procesarLlegada D s =
     bind (crearCliente D s) (\<lambda>s2.
     bind (iniciarSiDisponible D CAJAS s2) (\<lambda>s3.
       Inr (programarLlegada D s3)))"

text \<open>\<^verbatim>\<open>procesarFinServicio\<close>, in its blocks. The first frees the server, advances the
  customer and either appends it to the queue of its next station, which is returned, or
  to the completed customers.\<close>

definition enrutarCliente ::
  "Evento \<Rightarrow> 'g SimulacionColas \<Rightarrow> error + ('g SimulacionColas \<times> int option)" where
  "enrutarCliente e s =
     (let idEst = idEstacion e; idCli = idCliente e in
      bind (vec_at (estaciones s) idEst) (\<lambda>est.
        let s1 = s\<lparr>estaciones := (estaciones s)[nat idEst := finalizarServicio est (tiempoActual s)]\<rparr>
        in
        bind (vec_at (clientes s1) idCli) (\<lambda>c0.
          let c = c0\<lparr>indiceEstacionActual := indiceEstacionActual c0 + 1\<rparr> in
          if indiceEstacionActual c < int (length (c_estaciones c)) then
            bind (vec_at (c_estaciones c) (indiceEstacionActual c)) (\<lambda>siguienteEstacion.
              let c' = c\<lparr>tiempoEntradaCola := tiempoActual s1\<rparr>;
                  s2 = s1\<lparr>clientes := (clientes s1)[nat idCli := c']\<rparr>
              in
              bind (vec_at (estaciones s2) siguienteEstacion) (\<lambda>sig.
                Inr (s2\<lparr>estaciones := (estaciones s2)
                          [nat siguienteEstacion := agregarCliente sig (c_id c') (tiempoActual s2)]\<rparr>,
                     Some siguienteEstacion)))
          else
            Inr (s1\<lparr>clientes := (clientes s1)[nat idCli := c],
                    clientesCompletados := clientesCompletados s1 @ [c]\<rparr>, None))))"

text \<open>The last block: the station that freed a server serves the next customer of its queue.\<close>

definition atenderCola :: "'g Random \<Rightarrow> int \<Rightarrow> 'g SimulacionColas \<Rightarrow> error + 'g SimulacionColas" where
  "atenderCola D idEst s =
     bind (vec_at (estaciones s) idEst) (\<lambda>est.
       if \<not> estaVacia est \<and> hayServidorDisponible est
       then iniciarServicio D idEst s else Inr s)"

definition procesarFinServicio ::
  "'g Random \<Rightarrow> Evento \<Rightarrow> 'g SimulacionColas \<Rightarrow> error + 'g SimulacionColas" where
  "procesarFinServicio D e s =
     bind (enrutarCliente e s) (\<lambda>(s3, siguiente).
     bind (case siguiente of
             Some siguienteEstacion \<Rightarrow> iniciarSiDisponible D siguienteEstacion s3
           | None \<Rightarrow> Inr s3) (\<lambda>s4.
       atenderCola D (idEstacion e) s4))"

text \<open>One turn of the loop of \<^verbatim>\<open>ejecutar\<close>, for a queue that is not empty.\<close>

definition paso :: "'g Random \<Rightarrow> 'g SimulacionColas \<Rightarrow> error + 'g SimulacionColas" where
  "paso D s =
     (let e = top (colaEventos s);
          s1 = s\<lparr>colaEventos := pop (colaEventos s), tiempoActual := tiempo e\<rparr>
      in case tipo e of
           LLEGADA \<Rightarrow>
             if tiempoActual s1 < duracionSimulacion s1 then procesarLlegada D s1 else Inr s1
         | FIN_SERVICIO \<Rightarrow> procesarFinServicio D e s1)"

text \<open>\<^verbatim>\<open>ejecutar\<close>. The loop need not end, so the result is an option: \<open>None\<close> is a run that
  never returns.\<close>

partial_function (option) ejecutar ::
  "'g Random \<Rightarrow> 'g SimulacionColas \<Rightarrow> (error + 'g SimulacionColas) option" where
  "ejecutar D s =
     (if colaEventos s = [] then Some (Inr (s\<lparr>tiempoFinalReal := tiempoActual s\<rparr>))
      else if isl (paso D s) then Some (Inl (projl (paso D s)))
      else ejecutar D (projr (paso D s)))"

definition getEstadisticas :: "'g SimulacionColas \<Rightarrow> error + Estadisticas" where
  "getEstadisticas s =
     (let total = int (length (clientesCompletados s)) in
      if total = 0 then
        Inr \<lparr>tiempoEsperaPromedio = 0, varianzaTiempoEspera = 0,
             utilizacionEstaciones = replicate NUM_ESTACIONES 0, totalClientes = total,
             tiempoSistemaPromedio = 0\<rparr>
      else
        let completos = filter (\<lambda>c. indiceEstacionActual c \<ge> int (length (c_estaciones c)))
                          (clientesCompletados s);
            sumaEspera = sum_list (map tiempoEsperaTotal completos);
            sumaSistema = sum_list (map getTiempoTotal completos);
            promedio = sumaEspera / real_of_int total;
            sistema = sumaSistema / real_of_int total;
            sumaDiferenciasCuadradas =
              sum_list (map (\<lambda>c. (tiempoEsperaTotal c - promedio) * (tiempoEsperaTotal c - promedio))
                          completos);
            varianza = sumaDiferenciasCuadradas / real_of_int total;
            tiempoSimulacion =
              (if tiempoFinalReal s > 0 then tiempoFinalReal s else duracionSimulacion s)
        in if length (estaciones s) < NUM_ESTACIONES then Inl OutOfRange
           else Inr \<lparr>tiempoEsperaPromedio = promedio, varianzaTiempoEspera = varianza,
                     utilizacionEstaciones =
                       map (\<lambda>e. getUtilizacion e tiempoSimulacion) (take NUM_ESTACIONES (estaciones s)),
                     totalClientes = total, tiempoSistemaPromedio = sistema\<rparr>)"


subsection \<open>Invariants of the engine\<close>

text \<open>How many times customer \<open>i\<close> stands in a waiting queue, and how many service ends
  are scheduled for it.\<close>

definition enCola :: "Estacion list \<Rightarrow> int \<Rightarrow> nat" where
  "enCola es i = sum_list (map (\<lambda>e. count_list (colaEspera e) i) es)"

definition enServicio :: "Evento list \<Rightarrow> int \<Rightarrow> nat" where
  "enServicio q i = length (filter (\<lambda>e. tipo e = FIN_SERVICIO \<and> idCliente e = i) q)"

text \<open>1 for a customer of the table that has stations left to visit, 0 for any other id.\<close>

definition pendiente :: "Cliente list \<Rightarrow> int \<Rightarrow> nat" where
  "pendiente cs i =
     (if 0 \<le> i \<and> nat i < length cs
         \<and> indiceEstacionActual (cs ! nat i) < int (length (c_estaciones (cs ! nat i)))
      then 1 else 0)"

definition cliente_ok :: "Cliente \<Rightarrow> bool" where
  "cliente_ok c \<longleftrightarrow>
     0 \<le> indiceEstacionActual c \<and> indiceEstacionActual c \<le> int (length (c_estaciones c))
     \<and> (\<forall>k \<in> set (c_estaciones c). 0 \<le> k \<and> k < 5)"

text \<open>The state of an engine between two events of a run: five stations, customers
  numbered by their place in the table, and every customer with stations left either in one
  waiting queue or in service with one service end scheduled, never both.\<close>

definition invariante :: "'g SimulacionColas \<Rightarrow> bool" where
  "invariante s \<longleftrightarrow>
     length (estaciones s) = 5
     \<and> length (probabilidadesEstaciones s) = 5
     \<and> siguienteIdCliente s = int (length (clientes s))
     \<and> (\<forall>c \<in> set (clientes s). cliente_ok c)
     \<and> (\<forall>i < length (clientes s). c_id (clientes s ! i) = int i)
     \<and> (\<forall>e \<in> set (colaEventos s). tipo e = FIN_SERVICIO \<longrightarrow> 0 \<le> idEstacion e \<and> idEstacion e < 5)
     \<and> (\<forall>i. enCola (estaciones s) i + enServicio (colaEventos s) i \<le> pendiente (clientes s) i)
     \<and> (\<forall>c \<in> set (clientesCompletados s).
           indiceEstacionActual c = int (length (c_estaciones c)))"

subsection \<open>A measure for the loop of ejecutar\<close>

text \<open>The weight of a scheduled arrival: when every gap between arrivals is at least
  \<open>delta\<close>, an arrival at time \<open>t\<close> before the end \<open>H\<close> of the arrival period is followed
  by at most \<open>(H - t) / delta\<close> others.\<close>

definition peso :: "real \<Rightarrow> real \<Rightarrow> Evento \<Rightarrow> nat" where
  "peso delta H e =
     (if tipo e = LLEGADA
      then (if tiempo e < H then nat \<lceil>(H - tiempo e) / delta\<rceil> + 1 else 1)
      else 0)"

definition porLlegar :: "real \<Rightarrow> 'g SimulacionColas \<Rightarrow> nat" where
  "porLlegar delta s = sum_list (map (peso delta (duracionSimulacion s)) (colaEventos s))"

text \<open>The work left for the customers already in the system: scheduled events, customers in
  waiting queues, and stations still to visit.\<close>

definition porAtender :: "'g SimulacionColas \<Rightarrow> nat" where
  "porAtender s =
     length (colaEventos s)
     + 2 * sum_list (map (\<lambda>e. length (colaEspera e)) (estaciones s))
     + 3 * sum_list (map (\<lambda>c. length (c_estaciones c) - nat (indiceEstacionActual c)) (clientes s))"

subsection \<open>Runs of the engine\<close>

text \<open>The state after at most \<open>n\<close> turns of the loop of \<^verbatim>\<open>ejecutar\<close>.\<close>

fun pasos :: "'g Random \<Rightarrow> nat \<Rightarrow> 'g SimulacionColas \<Rightarrow> error + 'g SimulacionColas" where
  "pasos D 0 s = Inr s"
| "pasos D (Suc n) s =
     (if colaEventos s = [] then Inr s
      else case paso D s of Inl e \<Rightarrow> Inl e | Inr s' \<Rightarrow> pasos D n s')"

text \<open>The states an engine can be in when one of its methods is called, or between two
  events of \<^verbatim>\<open>ejecutar\<close>: it is constructed, initialized any number of times, and run.\<close>

inductive alcanzable :: "'g Random \<Rightarrow> 'g SimulacionColas \<Rightarrow> bool" for D :: "'g Random" where
  construido: "alcanzable D (SimulacionColas_ctor D duracion lambda semilla)"
| inicializado: "alcanzable D s \<Longrightarrow> inicializar D config s = Inr s' \<Longrightarrow> alcanzable D s'"
| evento: "alcanzable D s \<Longrightarrow> colaEventos s \<noteq> [] \<Longrightarrow> paso D s = Inr s' \<Longrightarrow> alcanzable D s'"
| terminado: "alcanzable D s \<Longrightarrow> colaEventos s = [] \<Longrightarrow>
     alcanzable D (s\<lparr>tiempoFinalReal := tiempoActual s\<rparr>)"

subsection \<open>The clock\<close>

text \<open>The ranges that \<^verbatim>\<open><random>\<close> documents for the draws the engine uses: an exponential
  draw of positive rate and a geometric draw are not negative, and a uniform draw on
  \<open>[0, 1)\<close> is at least 0.\<close>

definition rangos :: "'g Random \<Rightarrow> bool" where
  "rangos D \<longleftrightarrow>
     (\<forall>mu g. 0 < mu \<longrightarrow> 0 \<le> fst (exponential_distribution D mu g))
     \<and> (\<forall>p g. 0 \<le> fst (geometric_distribution D p g))
     \<and> (\<forall>g. 0 \<le> fst (uniform_real_distribution D 0 1 g))"

definition estacion_tiempo :: "real \<Rightarrow> Estacion \<Rightarrow> bool" where
  "estacion_tiempo t e \<longleftrightarrow>
     0 \<le> tiempoUltimoCambio e \<and> tiempoUltimoCambio e \<le> t
     \<and> (t = 0 \<longrightarrow> tiempoTotalOcupado e = 0)"

text \<open>No scheduled event lies in the past, and no station has changed after the clock.\<close>

definition inv_tiempo :: "'g SimulacionColas \<Rightarrow> bool" where
  "inv_tiempo s \<longleftrightarrow>
     0 < tasaLlegada s \<and> 0 \<le> tiempoActual s
     \<and> (\<forall>e \<in> set (colaEventos s). tiempoActual s \<le> tiempo e)
     \<and> (\<forall>e \<in> set (estaciones s). estacion_tiempo (tiempoActual s) e)"

definition noDecrece :: "Estacion list \<Rightarrow> Estacion list \<Rightarrow> bool" where
  "noDecrece es es' \<longleftrightarrow>
     length es' = length es
     \<and> (\<forall>k < length es. tiempoTotalOcupado (es ! k) \<le> tiempoTotalOcupado (es' ! k))"

subsection \<open>A generator for examples\<close>

text \<open>A generator whose draws are fixed: every exponential draw is \<open>gap\<close>, every normal draw
  is the mean, every binomial and geometric draw is 0, and every uniform draw is the middle
  of the interval. Its state counts the draws.\<close>

definition generadorFijo :: "real \<Rightarrow> nat Random" where
  "generadorFijo gap =
     \<lparr>mt19937 = (\<lambda>semilla. semilla),
      exponential_distribution = (\<lambda>lambda g. (gap, Suc g)),
      normal_distribution = (\<lambda>media desvEst g. (media, Suc g)),
      binomial_distribution = (\<lambda>n p g. (0, Suc g)),
      geometric_distribution = (\<lambda>p g. (0, Suc g)),
      uniform_real_distribution = (\<lambda>a b g. ((a + b) / 2, Suc g))\<rparr>"

text \<open>The configuration of the source's \<^verbatim>\<open>main\<close>.\<close>

definition configInicial :: ConfiguracionServidores where
  "configInicial = \<lparr>cajas = 3, refrescos = 2, freidora = 2, postres = 1, pollo = 4\<rparr>"

text \<open>An engine with the defaults of the source (480 minutes, 3 arrivals per minute,
  seed 42) on this generator, after \<^verbatim>\<open>inicializar\<close>.\<close>

definition ejemplo :: "real \<Rightarrow> nat SimulacionColas" where
  "ejemplo gap =
     projr (inicializar (generadorFijo gap) configInicial
              (SimulacionColas_ctor (generadorFijo gap) 480 3 42))"




section \<open>Properties\<close>

subsection \<open>Auxiliary facts\<close>

lemma bind_Inr_iff: "bind m f = Inr y \<longleftrightarrow> (\<exists>x. m = Inr x \<and> f x = Inr y)"
  by (cases m) (simp_all add: bind_def)

lemma bind_Inr [simp]: "bind (Inr x) f = f x"
  by (simp add: bind_def)

lemma bind_Inl [simp]: "bind (Inl e) f = Inl e"
  by (simp add: bind_def)

lemma vec_at_Inr_iff: "vec_at xs i = Inr x \<longleftrightarrow> 0 \<le> i \<and> nat i < length xs \<and> x = xs ! nat i"
  by (auto simp: vec_at_def)

lemma vec_at_ok: "0 \<le> i \<Longrightarrow> nat i < length xs \<Longrightarrow> vec_at xs i = Inr (xs ! nat i)"
  by (auto simp: vec_at_def)

lemma primerServidor_Some: "primerServidor b v = Some i \<Longrightarrow> i < length v \<and> v ! i = b"
  by (induction v arbitrary: i) (auto split: if_splits)


declare push_heap_aux.simps [simp del]
declare adjust_heap_loop.simps [simp del]

lemma mset_update_dos:
  assumes "p < length v" "h < length v" "p \<noteq> h"
  shows "mset (v[h := v ! p, p := x]) = mset (v[h := x])"
proof -
  have "mset ((v[h := x])[h := (v[h := x]) ! p, p := (v[h := x]) ! h]) = mset (v[h := x])"
    by (rule mset_swap) (use assms in simp_all)
  then show ?thesis using assms by simp
qed

lemma push_heap_aux_mset:
  "h < length v \<Longrightarrow> mset (push_heap_aux v h t x) = mset (v[h := x])"
proof (induction v h t x rule: push_heap_aux.induct)
  case (1 v h t x)
  define p where "p = (h - 1) div 2"
  show ?case
  proof (cases "h > t \<and> greater (v ! p) x")
    case True
    then have ph: "p < h" by (simp add: p_def) arith
    have "mset (push_heap_aux (v[h := v ! p]) p t x) = mset (v[h := v ! p, p := x])"
      using 1 True ph by (simp add: p_def)
    also have "\<dots> = mset (v[h := x])"
      using ph 1(2) by (intro mset_update_dos) simp_all
    finally show ?thesis
      using True by (subst push_heap_aux.simps) (simp add: p_def Let_def)
  next
    case False
    then show ?thesis by (subst push_heap_aux.simps) (auto simp: p_def Let_def)
  qed
qed

lemma push_heap_aux_length [simp]: "length (push_heap_aux v h t x) = length v"
proof (induction v h t x rule: push_heap_aux.induct)
  case (1 v h t x)
  show ?case using 1 by (subst push_heap_aux.simps) (simp add: Let_def)
qed

lemma adjust_heap_loop_mset:
  "adjust_heap_loop v len h = (v1, h1) \<Longrightarrow> h < len \<Longrightarrow> len \<le> length v \<Longrightarrow>
   h1 < len \<and> h \<le> h1 \<and> length v1 = length v \<and> mset (v1[h1 := x]) = mset (v[h := x])"
proof (induction v len h arbitrary: v1 h1 rule: adjust_heap_loop.induct)
  case (1 v len h)
  show ?case
  proof (cases "h < (len - 1) div 2")
    case True
    define sc where "sc = 2 * (h + 1)"
    define sc' where "sc' = (if greater (v ! sc) (v ! (sc - 1)) then sc - 1 else sc)"
    have b: "h < sc'" "sc' < len" using True by (auto simp: sc_def sc'_def)
    have r: "adjust_heap_loop (v[h := v ! sc']) len sc' = (v1, h1)"
      using 1(2) True by (subst (asm) adjust_heap_loop.simps) (auto simp: Let_def sc_def sc'_def split: if_splits)
    from 1(1)[OF True sc_def sc'_def r] b 1(4)
    have i: "h1 < len" "sc' \<le> h1" "length v1 = length v"
      "mset (v1[h1 := x]) = mset (v[h := v ! sc', sc' := x])" by simp_all
    have "mset (v[h := v ! sc', sc' := x]) = mset (v[h := x])"
      using b 1(3,4) by (intro mset_update_dos) simp_all
    then show ?thesis using i b by simp
  next
    case False
    then have "v1 = v" "h1 = h" using 1(2) by (subst (asm) adjust_heap_loop.simps, simp)+
    then show ?thesis using 1(3) by simp
  qed
qed

lemma adjust_heap_mset:
  assumes "h < len" "len \<le> length v"
  shows "mset (adjust_heap v h len x) = mset (v[h := x]) \<and> length (adjust_heap v h len x) = length v"
proof -
  obtain v1 h1 where r: "adjust_heap_loop v len h = (v1, h1)" by force
  note l = adjust_heap_loop_mset[OF r assms]
  have h1: "h1 < len" and lv: "length v1 = length v" and m: "mset (v1[h1 := x]) = mset (v[h := x])"
    using l[of x] by simp_all
  have h1l: "h1 < length v1" using h1 lv assms by simp
  show ?thesis
  proof (cases "len mod 2 = 0 \<and> 2 \<le> len \<and> h1 = (len - 2) div 2")
    case True
    define c where "c = 2 * (h1 + 1) - 1"
    have c: "c < len" "h1 < c" using True by (auto simp: c_def)
    have cl: "c < length v1" using c lv assms by simp
    have e: "adjust_heap v h len x = push_heap_aux (v1[h1 := v1 ! c]) c h x"
      using True r by (simp add: adjust_heap_def Let_def c_def)
    have "mset (push_heap_aux (v1[h1 := v1 ! c]) c h x) = mset (v1[h1 := v1 ! c, c := x])"
      using cl by (intro push_heap_aux_mset) simp
    also have "\<dots> = mset (v1[h1 := x])"
      using c cl h1l by (intro mset_update_dos) simp_all
    finally show ?thesis using m lv e by simp
  next
    case False
    then have e: "adjust_heap v h len x = push_heap_aux v1 h1 h x"
      using r by (auto simp: adjust_heap_def)
    have "mset (push_heap_aux v1 h1 h x) = mset (v1[h1 := x])"
      using h1l by (intro push_heap_aux_mset)
    then show ?thesis using m lv e by simp
  qed
qed

lemma add_mset_diff_miembro: "b \<in># M \<Longrightarrow> add_mset a (M - {#b#}) = add_mset a M - {#b#}"
  by (metis insert_DiffM add_mset_commute add_mset_remove_trivial)

lemma mset_butlast_last: "q \<noteq> [] \<Longrightarrow> add_mset (last q) (mset (butlast q)) = mset q"
proof -
  assume "q \<noteq> []"
  then have "mset q = mset (butlast q @ [last q])" by simp
  then show ?thesis by (simp del: append_butlast_last_id)
qed

lemma mset_push: "mset (push q e) = add_mset e (mset q)"
proof -
  have "mset (push_heap_aux (q @ [e]) (length q) 0 e) = mset ((q @ [e])[length q := e])"
    by (intro push_heap_aux_mset) simp
  then show ?thesis by (simp add: push_def Let_def)
qed

lemma mset_pop: "q \<noteq> [] \<Longrightarrow> mset (pop q) = mset q - {#top q#}"
proof (cases "length q > 1")
  case True
  assume ne: "q \<noteq> []"
  have b: "butlast q \<noteq> []" using True by (cases q) auto
  have h: "hd (butlast q) = hd q" using b by (cases q) auto
  have l0: "0 < length (butlast q)" using b by (simp del: length_butlast)
  have n0: "butlast q ! 0 = hd q" using b h by (simp add: hd_conv_nth)
  have hin: "hd q \<in># mset (butlast q)" using b h by (metis hd_in_set set_mset_mset)
  have "mset (pop q) = mset ((butlast q)[0 := last q])"
    using True adjust_heap_mset[of 0 "length q - 1" "butlast q" "last q"] by (simp add: pop_def)
  also have "\<dots> = add_mset (last q) (mset (butlast q) - {#hd q#})"
    using mset_update[OF l0, of "last q"] n0 by simp
  also have "\<dots> = add_mset (last q) (mset (butlast q)) - {#hd q#}"
    by (rule add_mset_diff_miembro[OF hin])
  finally show ?thesis by (simp add: top_def mset_butlast_last[OF ne])
next
  case False
  assume "q \<noteq> []"
  with False obtain x where "q = [x]" by (cases q) auto
  then show ?thesis by (simp add: pop_def top_def)
qed

lemma top_in: "q \<noteq> [] \<Longrightarrow> top q \<in> set q"
  by (simp add: top_def)

lemma push_Nil [simp]: "push [] e = [e]"
  by (simp add: push_def push_heap_aux.simps)

lemma set_push [simp]: "set (push q e) = insert e (set q)"
  using mset_push[of q e] by (metis set_mset_mset set_mset_add_mset_insert)

lemma length_push [simp]: "length (push q e) = Suc (length q)"
  using mset_push[of q e] by (metis size_mset size_add_mset)

lemma push_no_vacia [simp]: "push q e \<noteq> []"
  using length_push[of q e] by (metis length_0_conv nat.distinct(1))

lemma sum_list_map_push [simp]:
  fixes f :: "Evento \<Rightarrow> nat"
  shows "sum_list (map f (push q e)) = sum_list (map f q) + f e"
proof -
  have "sum_mset (image_mset f (mset (push q e))) = sum_mset (image_mset f (add_mset e (mset q)))"
    by (simp add: mset_push)
  then show ?thesis by (simp add: sum_mset_sum_list[symmetric] del: sum_mset_sum_list) 
qed

lemma filter_push_length:
  "length (filter P (push q e)) = length (filter P q) + (if P e then 1 else 0)"
proof -
  have "size (filter_mset P (mset (push q e))) = size (filter_mset P (add_mset e (mset q)))"
    by (simp add: mset_push)
  then show ?thesis by (simp add: mset_filter[symmetric] del: mset_filter)
qed

lemma set_pop: "q \<noteq> [] \<Longrightarrow> set (pop q) \<subseteq> set q"
  using mset_pop[of q] by (metis in_diffD set_mset_mset subsetI)

lemma in_pop: "q \<noteq> [] \<Longrightarrow> x \<in> set q \<Longrightarrow> x \<noteq> top q \<Longrightarrow> x \<in> set (pop q)"
proof -
  assume a: "q \<noteq> []" "x \<in> set q" "x \<noteq> top q"
  have "count (mset (pop q)) x = count (mset q) x" using mset_pop[OF a(1)] a(3) by simp
  moreover have "0 < count (mset q) x" using a(2) by simp
  ultimately have "0 < count (mset (pop q)) x" by simp
  then show ?thesis by (simp del: count_mset add: count_greater_zero_iff)
qed

lemma length_pop: "q \<noteq> [] \<Longrightarrow> Suc (length (pop q)) = length q"
proof -
  assume ne: "q \<noteq> []"
  have "size (mset (pop q)) = size (mset q - {#top q#})" using mset_pop[OF ne] by simp
  moreover have "top q \<in># mset q" using top_in[OF ne] by simp
  ultimately show ?thesis by (simp add: size_Diff_singleton) (metis Suc_pred length_greater_0_conv ne)
qed

lemma sum_list_map_pop:
  fixes f :: "Evento \<Rightarrow> nat"
  assumes ne: "q \<noteq> []"
  shows "sum_list (map f (pop q)) + f (top q) = sum_list (map f q)"
proof -
  have "top q \<in># mset q" using top_in[OF ne] by simp
  then have "mset q = add_mset (top q) (mset (pop q))" using mset_pop[OF ne] by simp
  then have "sum_mset (image_mset f (mset q)) = sum_mset (image_mset f (add_mset (top q) (mset (pop q))))"
    by simp
  then show ?thesis by (simp add: sum_mset_sum_list[symmetric] del: sum_mset_sum_list)
qed

lemma filter_pop_length:
  assumes ne: "q \<noteq> []"
  shows "length (filter P (pop q)) + (if P (top q) then 1 else 0) = length (filter P q)"
proof -
  have "top q \<in># mset q" using top_in[OF ne] by simp
  then have "mset q = add_mset (top q) (mset (pop q))" using mset_pop[OF ne] by simp
  then have "size (filter_mset P (mset q)) = size (filter_mset P (add_mset (top q) (mset (pop q))))"
    by simp
  then show ?thesis by (simp add: mset_filter[symmetric] del: mset_filter)
qed

lemma iniciarServicio_effect:
  assumes "iniciarServicio D k s = Inr s'"
  shows "0 \<le> k \<and> nat k < length (estaciones s) \<and>
    (s' = s \<or>
     (\<exists>i resto j. colaEspera (estaciones s ! nat k) = i # resto
        \<and> primerServidor False (servidorOcupado (estaciones s ! nat k)) = Some j
        \<and> (let est' = actualizarTiempoOcupado ((estaciones s ! nat k)
                 \<lparr>colaEspera := resto, servidorOcupado := (servidorOcupado (estaciones s ! nat k))[j := True]\<rparr>) (tiempoActual s);
                s1 = s\<lparr>estaciones := (estaciones s)[nat k := est']\<rparr>
            in if i < 0 then s' = s1
               else nat i < length (clientes s) \<and>
                 s' = s1\<lparr>clientes := (clientes s)[nat i := (clientes s ! nat i)
                           \<lparr>tiempoEsperaTotal := tiempoEsperaTotal (clientes s ! nat i)
                               + (tiempoActual s - tiempoEntradaCola (clientes s ! nat i)),
                            tiempoServicioTotal := tiempoServicioTotal (clientes s ! nat i)
                               + fst (getTiempoServicio D k (rng s))\<rparr>],
                         rng := snd (getTiempoServicio D k (rng s)),
                         colaEventos := push (colaEventos s)
                           \<lparr>tiempo = tiempoActual s + fst (getTiempoServicio D k (rng s)),
                             tipo = FIN_SERVICIO, idCliente = i, idEstacion = k\<rparr>\<rparr>)))"
  using assms
  by (auto simp: iniciarServicio_def bind_Inr_iff vec_at_Inr_iff Estacion_iniciarServicio_def
        Let_def split: list.splits option.splits prod.splits if_splits)

lemma enCola_update:
  "k < length es \<Longrightarrow>
   enCola (es[k := e']) i + count_list (colaEspera (es ! k)) i
     = enCola es i + count_list (colaEspera e') i"
  unfolding enCola_def
proof (induction es arbitrary: k)
  case Nil
  then show ?case by simp
next
  case (Cons a es)
  then show ?case by (cases k) auto
qed

lemma enCola_same_cola:
  "k < length es \<Longrightarrow> colaEspera e' = colaEspera (es ! k) \<Longrightarrow> enCola (es[k := e']) i = enCola es i"
  using enCola_update[of k es e' i] by simp

lemma enCola_ge: "k < length es \<Longrightarrow> count_list (colaEspera (es ! k)) i \<le> enCola es i"
  unfolding enCola_def
proof (induction es arbitrary: k)
  case Nil
  then show ?case by simp
next
  case (Cons a es)
  then show ?case by (cases k) (auto simp: trans_le_add2)
qed

lemma enServicio_append [simp]:
  "enServicio (q @ [e]) i = enServicio q i + (if tipo e = FIN_SERVICIO \<and> idCliente e = i then 1 else 0)"
  by (simp add: enServicio_def)

lemma enServicio_push [simp]:
  "enServicio (push q e) i = enServicio q i + (if tipo e = FIN_SERVICIO \<and> idCliente e = i then 1 else 0)"
  by (simp add: enServicio_def filter_push_length)

lemma pendiente_update:
  "indiceEstacionActual c' = indiceEstacionActual (cs ! j) \<Longrightarrow> c_estaciones c' = c_estaciones (cs ! j)
   \<Longrightarrow> pendiente (cs[j := c']) i = pendiente cs i"
  by (cases "nat i = j") (auto simp: pendiente_def)

lemma pendiente_pos: "0 < pendiente cs i \<Longrightarrow> 0 \<le> i \<and> nat i < length cs
   \<and> indiceEstacionActual (cs ! nat i) < int (length (c_estaciones (cs ! nat i)))"
  by (auto simp: pendiente_def split: if_splits)

lemma iniciarServicio_ok:
  assumes "invariante s" "0 \<le> k" "k < 5"
  shows "\<exists>s'. iniciarServicio D k s = Inr s'"
proof -
  have k: "nat k < length (estaciones s)" using assms by (auto simp: invariante_def)
  have cl: "\<And>i resto. colaEspera (estaciones s ! nat k) = i # resto \<Longrightarrow> 0 \<le> i \<and> nat i < length (clientes s)"
  proof -
    fix i resto assume a: "colaEspera (estaciones s ! nat k) = i # resto"
    have "0 < count_list (colaEspera (estaciones s ! nat k)) i" using a by simp
    then have "0 < enCola (estaciones s) i" using enCola_ge[OF k, of i] by linarith
    moreover have "enCola (estaciones s) i + enServicio (colaEventos s) i \<le> pendiente (clientes s) i"
      using assms(1) by (simp add: invariante_def)
    ultimately have "0 < pendiente (clientes s) i" by linarith
    then show "0 \<le> i \<and> nat i < length (clientes s)" using pendiente_pos by blast
  qed
  show ?thesis using k assms(2) cl
    by (auto simp: iniciarServicio_def vec_at_def Estacion_iniciarServicio_def Let_def
          split: list.splits option.splits prod.splits)
qed

lemma iniciarServicio_inv:
  assumes I: "invariante s" and R: "iniciarServicio D k s = Inr s'" and k5: "k < 5"
  shows "invariante s'"
proof -
  from iniciarServicio_effect[OF R] have k0: "0 \<le> k" and k: "nat k < length (estaciones s)" by auto
  show ?thesis
  proof (cases "s' = s")
    case True
    then show ?thesis using I by simp
  next
    case False
    with iniciarServicio_effect[OF R] obtain i resto j where
      q: "colaEspera (estaciones s ! nat k) = i # resto" and
      j: "primerServidor False (servidorOcupado (estaciones s ! nat k)) = Some j" and
      eff: "(let est' = actualizarTiempoOcupado ((estaciones s ! nat k)
                 \<lparr>colaEspera := resto, servidorOcupado := (servidorOcupado (estaciones s ! nat k))[j := True]\<rparr>) (tiempoActual s);
                s1 = s\<lparr>estaciones := (estaciones s)[nat k := est']\<rparr>
            in if i < 0 then s' = s1
               else nat i < length (clientes s) \<and>
                 s' = s1\<lparr>clientes := (clientes s)[nat i := (clientes s ! nat i)
                           \<lparr>tiempoEsperaTotal := tiempoEsperaTotal (clientes s ! nat i)
                               + (tiempoActual s - tiempoEntradaCola (clientes s ! nat i)),
                            tiempoServicioTotal := tiempoServicioTotal (clientes s ! nat i)
                               + fst (getTiempoServicio D k (rng s))\<rparr>],
                         rng := snd (getTiempoServicio D k (rng s)),
                         colaEventos := push (colaEventos s)
                           \<lparr>tiempo = tiempoActual s + fst (getTiempoServicio D k (rng s)),
                             tipo = FIN_SERVICIO, idCliente = i, idEstacion = k\<rparr>\<rparr>)"
      by auto
    have W: "\<And>x. enCola (estaciones s) x + enServicio (colaEventos s) x \<le> pendiente (clientes s) x"
      using I by (simp add: invariante_def)
    have "0 < count_list (colaEspera (estaciones s ! nat k)) i" using q by simp
    then have "0 < enCola (estaciones s) i" using enCola_ge[OF k, of i] by linarith
    then have "0 < pendiente (clientes s) i" using W[of i] by linarith
    then have i0: "0 \<le> i" and il: "nat i < length (clientes s)" using pendiente_pos by blast+
    define est' where "est' = actualizarTiempoOcupado ((estaciones s ! nat k)
                 \<lparr>colaEspera := resto, servidorOcupado := (servidorOcupado (estaciones s ! nat k))[j := True]\<rparr>) (tiempoActual s)"
    define c' where "c' = (clientes s ! nat i)
                           \<lparr>tiempoEsperaTotal := tiempoEsperaTotal (clientes s ! nat i)
                               + (tiempoActual s - tiempoEntradaCola (clientes s ! nat i)),
                            tiempoServicioTotal := tiempoServicioTotal (clientes s ! nat i)
                               + fst (getTiempoServicio D k (rng s))\<rparr>"
    define ev where "ev = \<lparr>tiempo = tiempoActual s + fst (getTiempoServicio D k (rng s)),
                             tipo = FIN_SERVICIO, idCliente = i, idEstacion = k\<rparr>"
    have s': "s' = s\<lparr>estaciones := (estaciones s)[nat k := est'],
                    clientes := (clientes s)[nat i := c'],
                    rng := snd (getTiempoServicio D k (rng s)),
                    colaEventos := push (colaEventos s) ev\<rparr>"
      using eff i0 by (simp add: Let_def est'_def c'_def ev_def)
    have ce: "colaEspera est' = resto" by (simp add: est'_def actualizarTiempoOcupado_def)
    have cola: "\<And>x. enCola ((estaciones s)[nat k := est']) x + (if x = i then 1 else 0) = enCola (estaciones s) x"
    proof -
      fix x
      show "enCola ((estaciones s)[nat k := est']) x + (if x = i then 1 else 0) = enCola (estaciones s) x"
        using enCola_update[OF k, of est' x] by (simp add: q ce split: if_splits)
    qed
    have pen: "\<And>x. pendiente ((clientes s)[nat i := c']) x = pendiente (clientes s) x"
      by (rule pendiente_update) (simp_all add: c'_def)
    have "clientes s ! nat i \<in> set (clientes s)" using il by simp
    then have "cliente_ok (clientes s ! nat i)" using I by (simp add: invariante_def)
    then have ok: "cliente_ok c'" by (simp add: c'_def cliente_ok_def)
    have cid: "c_id c' = c_id (clientes s ! nat i)" by (simp add: c'_def)
    have 1: "\<forall>c \<in> set (clientes s'). cliente_ok c"
      using I ok by (auto simp: s' invariante_def dest!: set_update_subset_insert[THEN subsetD])
    have 2: "\<forall>x < length (clientes s'). c_id (clientes s' ! x) = int x"
      using I cid il by (auto simp: s' invariante_def nth_list_update)
    have 3: "\<forall>e \<in> set (colaEventos s'). tipo e = FIN_SERVICIO \<longrightarrow> 0 \<le> idEstacion e \<and> idEstacion e < 5"
      using I k0 k5 by (auto simp: s' invariante_def ev_def)
    have 4: "\<forall>x. enCola (estaciones s') x + enServicio (colaEventos s') x \<le> pendiente (clientes s') x"
    proof
      fix x
      show "enCola (estaciones s') x + enServicio (colaEventos s') x \<le> pendiente (clientes s') x"
        using W[of x] cola[of x] pen[of x] by (simp add: s' ev_def split: if_splits)
    qed
    show ?thesis using I 1 2 3 4 unfolding invariante_def by (simp add: s')
  qed
qed

lemma iniciarSiDisponible_effect:
  assumes "iniciarSiDisponible D k s = Inr s'"
  shows "s' = s \<or> iniciarServicio D k s = Inr s'"
  using assms by (auto simp: iniciarSiDisponible_def split: if_splits)

lemma procesarLlegada_effect:
  assumes "procesarLlegada D s = Inr s'"
  shows "\<exists>s2 s3. crearCliente D s = Inr s2 \<and> iniciarSiDisponible D 0 s2 = Inr s3
    \<and> s' = programarLlegada D s3"
  using assms by (auto simp: procesarLlegada_def bind_Inr_iff)

lemma procesarFinServicio_effect:
  assumes "procesarFinServicio D e s = Inr s'"
  shows "\<exists>s3 sig s4. enrutarCliente e s = Inr (s3, sig)
    \<and> (case sig of Some k \<Rightarrow> iniciarSiDisponible D k s3 = Inr s4 | None \<Rightarrow> s4 = s3)
    \<and> atenderCola D (idEstacion e) s4 = Inr s'"
proof -
  from assms obtain s3 sig where e: "enrutarCliente e s = Inr (s3, sig)"
    and r: "bind (case sig of Some k \<Rightarrow> iniciarSiDisponible D k s3 | None \<Rightarrow> Inr s3)
              (\<lambda>s4. atenderCola D (idEstacion e) s4) = Inr s'"
    by (auto simp: procesarFinServicio_def bind_Inr_iff)
  show ?thesis
  proof (cases sig)
    case None
    then show ?thesis using e r by simp
  next
    case (Some k)
    then show ?thesis using e r by (auto simp: bind_Inr_iff)
  qed
qed

lemma atenderCola_effect:
  assumes "atenderCola D k s = Inr s'"
  shows "0 \<le> k \<and> nat k < length (estaciones s) \<and> (s' = s \<or> iniciarServicio D k s = Inr s')"
  using assms by (auto simp: atenderCola_def bind_Inr_iff vec_at_Inr_iff split: if_splits)

lemma generarRuta_effect:
  assumes "generarRuta D probs g0 = Inr (ruta, g4)"
  shows "5 \<le> length probs \<and> hd ruta = 0 \<and> ruta \<noteq> [] \<and> (\<forall>k \<in> set ruta. 0 \<le> k \<and> k < 5)"
  using assms
  by (auto simp: generarRuta_def bind_Inr_iff vec_at_Inr_iff split: prod.splits if_splits)

lemma crearCliente_effect:
  assumes "crearCliente D s = Inr s'"
  shows "\<exists>ruta g4. generarRuta D (probabilidadesEstaciones s) (snd (numeroOrdenes D (rng s))) = Inr (ruta, g4)
    \<and> estaciones s \<noteq> []
    \<and> s' = s\<lparr>siguienteIdCliente := siguienteIdCliente s + 1, rng := g4,
                 clientes := clientes s @ [Cliente_ctor\<lparr>c_id := siguienteIdCliente s,
                    tiempoLlegada := tiempoActual s, numOrdenes := fst (numeroOrdenes D (rng s)),
                    indiceEstacionActual := 0, tiempoEntradaCola := tiempoActual s,
                    c_estaciones := ruta\<rparr>],
                 estaciones := (estaciones s)[0 := agregarCliente (estaciones s ! 0)
                    (siguienteIdCliente s) (tiempoActual s)]\<rparr>"
  using assms
  by (auto simp: crearCliente_def bind_Inr_iff vec_at_Inr_iff Let_def split: prod.splits)

lemma enrutarCliente_effect:
  assumes "enrutarCliente e s = Inr (s3, sig)"
  shows "0 \<le> idEstacion e \<and> nat (idEstacion e) < length (estaciones s)
    \<and> 0 \<le> idCliente e \<and> nat (idCliente e) < length (clientes s)
    \<and> (let s1 = s\<lparr>estaciones := (estaciones s)[nat (idEstacion e) :=
                    finalizarServicio (estaciones s ! nat (idEstacion e)) (tiempoActual s)]\<rparr>;
          c = (clientes s ! nat (idCliente e))
                \<lparr>indiceEstacionActual := indiceEstacionActual (clientes s ! nat (idCliente e)) + 1\<rparr>
      in if indiceEstacionActual c < int (length (c_estaciones c))
         then 0 \<le> indiceEstacionActual c
           \<and> sig = Some (c_estaciones c ! nat (indiceEstacionActual c))
           \<and> 0 \<le> c_estaciones c ! nat (indiceEstacionActual c)
           \<and> nat (c_estaciones c ! nat (indiceEstacionActual c)) < length (estaciones s)
           \<and> s3 = s1\<lparr>clientes := (clientes s)[nat (idCliente e) := c\<lparr>tiempoEntradaCola := tiempoActual s\<rparr>],
                      estaciones := (estaciones s1)[nat (c_estaciones c ! nat (indiceEstacionActual c)) :=
                         agregarCliente (estaciones s1 ! nat (c_estaciones c ! nat (indiceEstacionActual c)))
                           (c_id c) (tiempoActual s)]\<rparr>
         else sig = None \<and> s3 = s1\<lparr>clientes := (clientes s)[nat (idCliente e) := c],
                       clientesCompletados := clientesCompletados s @ [c]\<rparr>)"
  using assms
  by (auto simp: enrutarCliente_def bind_Inr_iff vec_at_Inr_iff Let_def split: if_splits)

lemma enServicio_remove1:
  "e \<in> set q \<Longrightarrow>
   enServicio (remove1 e q) x + (if tipo e = FIN_SERVICIO \<and> idCliente e = x then 1 else 0)
     = enServicio q x"
  by (induction q) (auto simp: enServicio_def)

lemma enServicio_pop:
  "q \<noteq> [] \<Longrightarrow>
   enServicio (pop q) x + (if tipo (top q) = FIN_SERVICIO \<and> idCliente (top q) = x then 1 else 0)
     = enServicio q x"
  using filter_pop_length[of q "\<lambda>e. tipo e = FIN_SERVICIO \<and> idCliente e = x"]
  by (simp add: enServicio_def)

lemma pendiente_append:
  "pendiente (cs @ [c]) x =
     (if x = int (length cs) then (if indiceEstacionActual c < int (length (c_estaciones c)) then 1 else 0)
      else pendiente cs x)"
  by (auto simp: pendiente_def nth_append)

lemma pendiente_out: "\<not> (0 \<le> x \<and> nat x < length cs) \<Longrightarrow> pendiente cs x = 0"
  by (auto simp: pendiente_def)

lemma W_bound:
  assumes "invariante s"
  shows "enCola (estaciones s) x + enServicio (colaEventos s) x \<le> pendiente (clientes s) x"
  using assms by (simp add: invariante_def)

lemma crearCliente_inv:
  assumes I: "invariante s" and R: "crearCliente D s = Inr s'"
  shows "invariante s'"
proof -
  from crearCliente_effect[OF R] obtain ruta g4 where
    gr: "generarRuta D (probabilidadesEstaciones s) (snd (numeroOrdenes D (rng s))) = Inr (ruta, g4)" and
    s': "s' = s\<lparr>siguienteIdCliente := siguienteIdCliente s + 1, rng := g4,
                 clientes := clientes s @ [Cliente_ctor\<lparr>c_id := siguienteIdCliente s,
                    tiempoLlegada := tiempoActual s, numOrdenes := fst (numeroOrdenes D (rng s)),
                    indiceEstacionActual := 0, tiempoEntradaCola := tiempoActual s,
                    c_estaciones := ruta\<rparr>],
                 estaciones := (estaciones s)[0 := agregarCliente (estaciones s ! 0)
                    (siguienteIdCliente s) (tiempoActual s)]\<rparr>"
    by blast
  define c where "c = Cliente_ctor\<lparr>c_id := siguienteIdCliente s,
                    tiempoLlegada := tiempoActual s, numOrdenes := fst (numeroOrdenes D (rng s)),
                    indiceEstacionActual := 0, tiempoEntradaCola := tiempoActual s,
                    c_estaciones := ruta\<rparr>"
  define est where "est = agregarCliente (estaciones s ! 0) (siguienteIdCliente s) (tiempoActual s)"
  have s'': "s' = s\<lparr>siguienteIdCliente := siguienteIdCliente s + 1, rng := g4,
                 clientes := clientes s @ [c], estaciones := (estaciones s)[0 := est]\<rparr>"
    using s' by (simp add: c_def est_def)
  have n: "siguienteIdCliente s = int (length (clientes s))" and l5: "length (estaciones s) = 5"
    using I by (simp_all add: invariante_def)
  have ruta: "ruta \<noteq> []" "\<forall>k \<in> set ruta. 0 \<le> k \<and> k < 5" using generarRuta_effect[OF gr] by auto
  have cok: "cliente_ok c" using ruta by (simp add: c_def cliente_ok_def)
  have cc: "indiceEstacionActual c = 0" "c_estaciones c = ruta" "c_id c = int (length (clientes s))"
    by (simp_all add: c_def n)
  have cola: "\<And>x. enCola ((estaciones s)[0 := est]) x
      = enCola (estaciones s) x + (if x = int (length (clientes s)) then 1 else 0)"
  proof -
    fix x
    show "enCola ((estaciones s)[0 := est]) x
      = enCola (estaciones s) x + (if x = int (length (clientes s)) then 1 else 0)"
      using enCola_update[of 0 "estaciones s" est x] l5
      by (simp add: est_def agregarCliente_def n split: if_splits)
  qed
  have 1: "\<forall>c \<in> set (clientes s'). cliente_ok c" using I cok by (auto simp: s'' invariante_def)
  have 2: "\<forall>x < length (clientes s'). c_id (clientes s' ! x) = int x"
    using I cc by (auto simp: s'' invariante_def nth_append less_Suc_eq)
  have 4: "\<forall>x. enCola (estaciones s') x + enServicio (colaEventos s') x \<le> pendiente (clientes s') x"
  proof
    fix x
    show "enCola (estaciones s') x + enServicio (colaEventos s') x \<le> pendiente (clientes s') x"
    proof (cases "x = int (length (clientes s))")
      case True
      have "pendiente (clientes s) x = 0" using True by (simp add: pendiente_out)
      then show ?thesis using W_bound[OF I, of x] True cc ruta
        by (simp add: s'' cola pendiente_append)
    next
      case False
      then show ?thesis using W_bound[OF I, of x] by (simp add: s'' cola pendiente_append)
    qed
  qed
  show ?thesis using I 1 2 4 n unfolding invariante_def by (simp add: s'')
qed

lemma generarRuta_ok: "5 \<le> length probs \<Longrightarrow> \<exists>r. generarRuta D probs g = Inr r"
  by (auto simp: generarRuta_def vec_at_def split: prod.splits)

lemma crearCliente_ok:
  assumes "invariante s"
  shows "\<exists>s'. crearCliente D s = Inr s'"
proof -
  have "5 \<le> length (probabilidadesEstaciones s)" "length (estaciones s) = 5"
    using assms by (simp_all add: invariante_def)
  then show ?thesis
    using generarRuta_ok[of "probabilidadesEstaciones s" D "snd (numeroOrdenes D (rng s))"]
    by (auto simp: crearCliente_def vec_at_def Let_def split: prod.splits)
qed

lemma programarLlegada_inv:
  assumes "invariante s"
  shows "invariante (programarLlegada D s)"
  using assms
  by (auto simp: programarLlegada_def invariante_def Let_def split: prod.splits)

lemma iniciarSiDisponible_inv:
  assumes "invariante s" "iniciarSiDisponible D k s = Inr s'" "k < 5"
  shows "invariante s'"
  using iniciarSiDisponible_effect[OF assms(2)] iniciarServicio_inv[OF assms(1) _ assms(3)] assms(1)
  by auto

lemma iniciarSiDisponible_ok:
  assumes "invariante s" "0 \<le> k" "k < 5"
  shows "\<exists>s'. iniciarSiDisponible D k s = Inr s'"
  using iniciarServicio_ok[OF assms] by (simp add: iniciarSiDisponible_def)

lemma atenderCola_inv:
  assumes "invariante s" "atenderCola D k s = Inr s'" "k < 5"
  shows "invariante s'"
  using atenderCola_effect[OF assms(2)] iniciarServicio_inv[OF assms(1) _ assms(3)] assms(1)
  by auto

lemma atenderCola_ok:
  assumes "invariante s" "0 \<le> k" "k < 5"
  shows "\<exists>s'. atenderCola D k s = Inr s'"
proof -
  have "nat k < length (estaciones s)" using assms by (simp add: invariante_def)
  then show ?thesis using iniciarServicio_ok[OF assms] assms(2)
    by (auto simp: atenderCola_def vec_at_def)
qed

lemma procesarLlegada_inv:
  assumes I: "invariante s"
  shows "\<exists>s'. procesarLlegada D s = Inr s' \<and> invariante s'"
proof -
  from crearCliente_ok[OF I] obtain s2 where c: "crearCliente D s = Inr s2" by blast
  have I2: "invariante s2" by (rule crearCliente_inv[OF I c])
  from iniciarSiDisponible_ok[OF I2, of 0] obtain s3 where i: "iniciarSiDisponible D 0 s2 = Inr s3"
    by auto
  have I3: "invariante s3" using iniciarSiDisponible_inv[OF I2 i] by simp
  show ?thesis using c i programarLlegada_inv[OF I3] by (simp add: procesarLlegada_def)
qed

lemma colaEspera_finalizarServicio [simp]: "colaEspera (finalizarServicio est t) = colaEspera est"
  by (simp add: finalizarServicio_def actualizarTiempoOcupado_def Let_def split: option.splits)

lemma pendiente_update_at:
  "0 \<le> i \<Longrightarrow> nat i < length cs \<Longrightarrow>
   pendiente (cs[nat i := c]) x =
     (if x = i then (if indiceEstacionActual c < int (length (c_estaciones c)) then 1 else 0)
      else pendiente cs x)"
  by (auto simp: pendiente_def nth_list_update)

lemma enrutarCliente_inv:
  assumes I: "invariante s" and e0: "0 \<le> idEstacion e" and e5: "idEstacion e < 5"
    and W0: "enCola (estaciones s) (idCliente e) + enServicio (colaEventos s) (idCliente e) = 0"
    and P: "pendiente (clientes s) (idCliente e) = 1"
  shows "\<exists>s3 sig. enrutarCliente e s = Inr (s3, sig) \<and> invariante s3
           \<and> (\<forall>k. sig = Some k \<longrightarrow> 0 \<le> k \<and> k < 5)"
proof -
  define i where "i = idCliente e"
  define k where "k = idEstacion e"
  define c0 where "c0 = clientes s ! nat i"
  define c where "c = c0\<lparr>indiceEstacionActual := indiceEstacionActual c0 + 1\<rparr>"
  define es1 where "es1 = (estaciones s)[nat k := finalizarServicio (estaciones s ! nat k) (tiempoActual s)]"
  have l5: "length (estaciones s) = 5" using I by (simp add: invariante_def)
  have kl: "nat k < length (estaciones s)" using e0 e5 l5 by (simp add: k_def)
  from P have i0: "0 \<le> i" and il: "nat i < length (clientes s)"
    and lt: "indiceEstacionActual c0 < int (length (c_estaciones c0))"
    using pendiente_pos[of "clientes s" i] by (simp_all add: i_def c0_def)
  have "c0 \<in> set (clientes s)" using il by (simp add: c0_def)
  then have ok0: "cliente_ok c0" using I by (simp add: invariante_def)
  have cid: "c_id c0 = i" using I il i0 by (simp add: invariante_def c0_def)
  have W: "\<And>x. enCola (estaciones s) x + enServicio (colaEventos s) x \<le> pendiente (clientes s) x"
    using W_bound[OF I] .
  have cola1: "\<And>x. enCola es1 x = enCola (estaciones s) x"
    unfolding es1_def by (rule enCola_same_cola[OF kl]) simp
  have l1: "length es1 = 5" using l5 by (simp add: es1_def)
  show ?thesis
  proof (cases "indiceEstacionActual c < int (length (c_estaciones c))")
    case True
    define sig where "sig = c_estaciones c ! nat (indiceEstacionActual c)"
    have idx0: "0 \<le> indiceEstacionActual c" using ok0 by (simp add: c_def cliente_ok_def)
    have "sig \<in> set (c_estaciones c0)" using True idx0 by (simp add: sig_def c_def)
    then have sig5: "0 \<le> sig" "sig < 5" using ok0 by (auto simp: cliente_ok_def)
    define c' where "c' = c\<lparr>tiempoEntradaCola := tiempoActual s\<rparr>"
    define s3 where "s3 = s\<lparr>estaciones := es1[nat sig := agregarCliente (es1 ! nat sig) (c_id c') (tiempoActual s)],
                            clientes := (clientes s)[nat i := c']\<rparr>"
    have R: "enrutarCliente e s = Inr (s3, Some sig)"
      using True kl e0 i0 il idx0 sig5 l1
      unfolding i_def k_def c0_def c_def es1_def sig_def c'_def s3_def
      by (simp add: enrutarCliente_def vec_at_def Let_def nat_less_iff)
    have ok': "cliente_ok c'" using ok0 True by (simp add: c'_def c_def cliente_ok_def)
    have cola3: "\<And>x. enCola (estaciones s3) x = enCola (estaciones s) x + (if x = i then 1 else 0)"
    proof -
      fix x
      have "nat sig < length es1" using sig5 l1 by simp
      from enCola_update[OF this, of "agregarCliente (es1 ! nat sig) (c_id c') (tiempoActual s)" x]
      show "enCola (estaciones s3) x = enCola (estaciones s) x + (if x = i then 1 else 0)"
        using cid by (simp add: s3_def cola1 agregarCliente_def c'_def c_def split: if_splits)
    qed
    have pen: "\<And>x. pendiente (clientes s3) x = (if x = i then 1 else pendiente (clientes s) x)"
      using True by (simp add: s3_def pendiente_update_at[OF i0 il] c'_def)
    have 1: "\<forall>c \<in> set (clientes s3). cliente_ok c"
      using I ok' by (auto simp: s3_def invariante_def dest!: set_update_subset_insert[THEN subsetD])
    have 2: "\<forall>x < length (clientes s3). c_id (clientes s3 ! x) = int x"
      using I cid il i0 by (auto simp: s3_def invariante_def nth_list_update c'_def c_def)
    have 4: "\<forall>x. enCola (estaciones s3) x + enServicio (colaEventos s3) x \<le> pendiente (clientes s3) x"
    proof
      fix x
      show "enCola (estaciones s3) x + enServicio (colaEventos s3) x \<le> pendiente (clientes s3) x"
        using W[of x] W0 by (simp add: cola3 pen) (simp add: s3_def i_def)
    qed
    have "invariante s3" using I 1 2 4 l1 unfolding invariante_def by (simp add: s3_def)
    then show ?thesis using R sig5 by simp
  next
    case False
    define s3 where "s3 = s\<lparr>estaciones := es1, clientes := (clientes s)[nat i := c],
                            clientesCompletados := clientesCompletados s @ [c]\<rparr>"
    have R: "enrutarCliente e s = Inr (s3, None)"
      using False kl e0 i0 il
      unfolding i_def k_def c0_def c_def es1_def s3_def
      by (simp add: enrutarCliente_def vec_at_def Let_def nat_less_iff)
    have eq: "indiceEstacionActual c = int (length (c_estaciones c))"
      using False lt by (simp add: c_def)
    have ok': "cliente_ok c" using ok0 eq by (simp add: c_def cliente_ok_def)
    have pen: "\<And>x. pendiente (clientes s3) x = (if x = i then 0 else pendiente (clientes s) x)"
      using False by (simp add: s3_def pendiente_update_at[OF i0 il])
    have 1: "\<forall>c \<in> set (clientes s3). cliente_ok c"
      using I ok' by (auto simp: s3_def invariante_def dest!: set_update_subset_insert[THEN subsetD])
    have 2: "\<forall>x < length (clientes s3). c_id (clientes s3 ! x) = int x"
      using I cid il i0 by (auto simp: s3_def invariante_def nth_list_update c_def)
    have 4: "\<forall>x. enCola (estaciones s3) x + enServicio (colaEventos s3) x \<le> pendiente (clientes s3) x"
    proof
      fix x
      show "enCola (estaciones s3) x + enServicio (colaEventos s3) x \<le> pendiente (clientes s3) x"
        using W[of x] W0 by (simp add: pen) (simp add: s3_def i_def cola1)
    qed
    have 5: "\<forall>c \<in> set (clientesCompletados s3). indiceEstacionActual c = int (length (c_estaciones c))"
      using I eq by (auto simp: s3_def invariante_def)
    have "invariante s3" using I 1 2 4 5 l1 unfolding invariante_def by (simp add: s3_def)
    then show ?thesis using R by simp
  qed
qed

lemma procesarFinServicio_inv:
  assumes I: "invariante s" and e0: "0 \<le> idEstacion e" and e5: "idEstacion e < 5"
    and W0: "enCola (estaciones s) (idCliente e) + enServicio (colaEventos s) (idCliente e) = 0"
    and P: "pendiente (clientes s) (idCliente e) = 1"
  shows "\<exists>s'. procesarFinServicio D e s = Inr s' \<and> invariante s'"
proof -
  from enrutarCliente_inv[OF assms] obtain s3 sig where
    r: "enrutarCliente e s = Inr (s3, sig)" and I3: "invariante s3"
    and sg: "\<forall>k. sig = Some k \<longrightarrow> 0 \<le> k \<and> k < 5" by blast
  have "\<exists>s4. (case sig of Some k \<Rightarrow> iniciarSiDisponible D k s3 | None \<Rightarrow> Inr s3) = Inr s4 \<and> invariante s4"
  proof (cases sig)
    case None
    then show ?thesis using I3 by simp
  next
    case (Some k)
    then have k: "0 \<le> k" "k < 5" using sg by auto
    from iniciarSiDisponible_ok[OF I3 k, of D] obtain s4 where "iniciarSiDisponible D k s3 = Inr s4" by blast
    then show ?thesis using iniciarSiDisponible_inv[OF I3 _ k(2)] Some by auto
  qed
  then obtain s4 where m: "(case sig of Some k \<Rightarrow> iniciarSiDisponible D k s3 | None \<Rightarrow> Inr s3) = Inr s4"
    and I4: "invariante s4" by blast
  from atenderCola_ok[OF I4 e0 e5, of D] obtain s' where a: "atenderCola D (idEstacion e) s4 = Inr s'" by blast
  have "invariante s'" by (rule atenderCola_inv[OF I4 a e5])
  then show ?thesis using r m a by (simp add: procesarFinServicio_def)
qed

lemma paso_inv:
  assumes I: "invariante s" and ne: "colaEventos s \<noteq> []"
  shows "\<exists>s'. paso D s = Inr s' \<and> invariante s'"
proof -
  define e where "e = top (colaEventos s)"
  define s1 where "s1 = s\<lparr>colaEventos := pop (colaEventos s), tiempoActual := tiempo e\<rparr>"
  have ein: "e \<in> set (colaEventos s)" using top_in[OF ne] by (simp add: e_def)
  have rm: "\<And>x. enServicio (colaEventos s1) x + (if tipo e = FIN_SERVICIO \<and> idCliente e = x then 1 else 0)
      = enServicio (colaEventos s) x"
    using enServicio_pop[OF ne] by (simp add: s1_def e_def)
  have W: "\<And>x. enCola (estaciones s) x + enServicio (colaEventos s) x \<le> pendiente (clientes s) x"
    using W_bound[OF I] .
  have 4: "\<forall>x. enCola (estaciones s1) x + enServicio (colaEventos s1) x \<le> pendiente (clientes s1) x"
  proof
    fix x
    show "enCola (estaciones s1) x + enServicio (colaEventos s1) x \<le> pendiente (clientes s1) x"
      using W[of x] rm[of x] by (simp add: s1_def split: if_splits)
  qed
  have sub: "set (colaEventos s1) \<subseteq> set (colaEventos s)"
    using set_pop[OF ne] by (simp add: s1_def)
  have I1: "invariante s1" using I 4 sub unfolding invariante_def by (auto simp: s1_def)
  show ?thesis
  proof (cases "tipo e")
    case LLEGADA
    then show ?thesis using procesarLlegada_inv[OF I1, of D] I1
      by (simp add: paso_def Let_def e_def[symmetric] s1_def[symmetric])
  next
    case FIN_SERVICIO
    have e05: "0 \<le> idEstacion e" "idEstacion e < 5" using I ein FIN_SERVICIO by (auto simp: invariante_def)
    have "pendiente (clientes s) (idCliente e) \<le> 1" by (simp add: pendiente_def)
    with W[of "idCliente e"] rm[of "idCliente e"] FIN_SERVICIO
    have W0: "enCola (estaciones s1) (idCliente e) + enServicio (colaEventos s1) (idCliente e) = 0"
      and P: "pendiente (clientes s1) (idCliente e) = 1"
      by (simp_all add: s1_def)
    from procesarFinServicio_inv[OF I1 e05 W0 P, of D] FIN_SERVICIO show ?thesis
      by (simp add: paso_def Let_def e_def[symmetric] s1_def[symmetric])
  qed
qed

lemma ejecutar_regla:
  assumes "ejecutar D s = Some r" and "I s"
    and "\<And>s s'. I s \<Longrightarrow> colaEventos s \<noteq> [] \<Longrightarrow> paso D s = Inr s' \<Longrightarrow> I s'"
  shows "\<exists>s1. I s1 \<and> (if colaEventos s1 = [] then r = Inr (s1\<lparr>tiempoFinalReal := tiempoActual s1\<rparr>)
                       else isl (paso D s1) \<and> r = Inl (projl (paso D s1)))"
proof -
  define Q where "Q = (\<lambda>(D' :: 'a Random) (r :: error + 'a SimulacionColas) s1.
      I s1 \<and> (if colaEventos s1 = [] then r = Inr (s1\<lparr>tiempoFinalReal := tiempoActual s1\<rparr>)
                       else isl (paso D' s1) \<and> r = Inl (projl (paso D' s1))))"
  define St where "St = (\<lambda>D' :: 'a Random. \<forall>s s'. I s \<longrightarrow> colaEventos s \<noteq> [] \<longrightarrow> paso D' s = Inr s' \<longrightarrow> I s')"
  have "St D \<longrightarrow> I s \<longrightarrow> (\<exists>s1. Q D r s1)"
  proof (rule ejecutar.raw_induct[where P = "\<lambda>D s r. St D \<longrightarrow> I s \<longrightarrow> (\<exists>s1. Q D r s1)", OF _ assms(1)])
    fix ejecutar' :: "'a Random \<Rightarrow> 'a SimulacionColas \<Rightarrow> (error + 'a SimulacionColas) option"
    fix D s r
    assume IH: "\<And>D s r. ejecutar' D s = Some r \<Longrightarrow> St D \<longrightarrow> I s \<longrightarrow> (\<exists>s1. Q D r s1)"
      and b: "(if colaEventos s = []
               then Some (Inr (s\<lparr>tiempoFinalReal := tiempoActual s\<rparr>))
               else if isl (paso D s) then Some (Inl (projl (paso D s)))
                    else ejecutar' D (projr (paso D s))) = Some r"
    show "St D \<longrightarrow> I s \<longrightarrow> (\<exists>s1. Q D r s1)"
    proof (intro impI)
      assume st: "St D" and Is: "I s"
      show "\<exists>s1. Q D r s1"
      proof (cases "colaEventos s = []")
        case True
        then have "r = Inr (s\<lparr>tiempoFinalReal := tiempoActual s\<rparr>)" using b by simp
        then have "Q D r s" using Is True by (simp add: Q_def)
        then show ?thesis ..
      next
        case ne: False
        show ?thesis
        proof (cases "paso D s")
          case (Inl e)
          then have "r = Inl e" using b ne by simp
          then have "Q D r s" using Is ne Inl by (simp add: Q_def)
          then show ?thesis ..
        next
          case (Inr s')
          then have a: "ejecutar' D s' = Some r" using b ne by simp
          have "I s'" using st Is ne Inr unfolding St_def by blast
          with IH[OF a] st show ?thesis by simp
        qed
      qed
    qed
  qed
  moreover have "St D" unfolding St_def using assms(3) by blast
  ultimately have "\<exists>s1. Q D r s1" using assms(2) by simp
  then show ?thesis by (simp add: Q_def)
qed

lemma ejecutar_invariante:
  assumes "ejecutar D s = Some r" and "invariante s"
  shows "\<exists>s1. invariante s1 \<and> colaEventos s1 = [] \<and> r = Inr (s1\<lparr>tiempoFinalReal := tiempoActual s1\<rparr>)"
proof -
  have st: "\<And>s s'. invariante s \<Longrightarrow> colaEventos s \<noteq> [] \<Longrightarrow> paso D s = Inr s' \<Longrightarrow> invariante s'"
  proof -
    fix s s' :: "'a SimulacionColas"
    assume a: "invariante s" "colaEventos s \<noteq> []" "paso D s = Inr s'"
    from paso_inv[OF a(1,2), of D] a(3) show "invariante s'" by auto
  qed
  have "\<exists>s1. invariante s1 \<and>
          (if colaEventos s1 = [] then r = Inr (s1\<lparr>tiempoFinalReal := tiempoActual s1\<rparr>)
           else isl (paso D s1) \<and> r = Inl (projl (paso D s1)))"
    by (rule ejecutar_regla[where I = invariante, OF assms(1) assms(2)]) (rule st)
  then obtain s1 where
    a: "invariante s1" and
    b: "if colaEventos s1 = [] then r = Inr (s1\<lparr>tiempoFinalReal := tiempoActual s1\<rparr>)
                       else isl (paso D s1) \<and> r = Inl (projl (paso D s1))"
    by (elim exE conjE)
  show ?thesis
  proof (cases "colaEventos s1 = []")
    case True
    then show ?thesis using a b by auto
  next
    case False
    with paso_inv[OF a False, of D] b show ?thesis by auto
  qed
qed

lemma inicializar_effect:
  assumes "inicializar D config s = Inr s'"
  shows "0 \<le> cajas config \<and> 0 \<le> refrescos config \<and> 0 \<le> freidora config \<and> 0 \<le> postres config
     \<and> 0 \<le> pollo config
     \<and> s' = s\<lparr>estaciones :=
           [\<lparr>e_id = 0, numServidores = cajas config, colaEspera = [],
             servidorOcupado = replicate (nat (cajas config)) False,
             tiempoTotalOcupado = 0, tiempoUltimoCambio = 0, totalAtendidos = 0\<rparr>,
            \<lparr>e_id = 1, numServidores = refrescos config, colaEspera = [],
             servidorOcupado = replicate (nat (refrescos config)) False,
             tiempoTotalOcupado = 0, tiempoUltimoCambio = 0, totalAtendidos = 0\<rparr>,
            \<lparr>e_id = 2, numServidores = freidora config, colaEspera = [],
             servidorOcupado = replicate (nat (freidora config)) False,
             tiempoTotalOcupado = 0, tiempoUltimoCambio = 0, totalAtendidos = 0\<rparr>,
            \<lparr>e_id = 3, numServidores = postres config, colaEspera = [],
             servidorOcupado = replicate (nat (postres config)) False,
             tiempoTotalOcupado = 0, tiempoUltimoCambio = 0, totalAtendidos = 0\<rparr>,
            \<lparr>e_id = 4, numServidores = pollo config, colaEspera = [],
             servidorOcupado = replicate (nat (pollo config)) False,
             tiempoTotalOcupado = 0, tiempoUltimoCambio = 0, totalAtendidos = 0\<rparr>],
          clientes := [], clientesCompletados := [], tiempoActual := 0, siguienteIdCliente := 0,
          rng := snd (tiempoEntreLlegadas D (tasaLlegada s) (rng s)),
          colaEventos := [\<lparr>tiempo = fst (tiempoEntreLlegadas D (tasaLlegada s) (rng s)),
                           tipo = LLEGADA, idCliente = - 1, idEstacion = - 1\<rparr>]\<rparr>"
  using assms
  by (auto simp: inicializar_def bind_Inr_iff Estacion_ctor_def split: if_splits prod.splits)

lemma inicializar_inv:
  assumes "inicializar D config s = Inr s'" "length (probabilidadesEstaciones s) = 5"
  shows "invariante s'"
proof -
  from inicializar_effect[OF assms(1)] obtain es g ev where
    "s' = s\<lparr>estaciones := es, clientes := [], clientesCompletados := [], tiempoActual := 0,
            siguienteIdCliente := 0, rng := g, colaEventos := [ev]\<rparr>"
    "length es = 5" "\<forall>e \<in> set es. colaEspera e = []" "tipo ev = LLEGADA"
    by auto
  then show ?thesis using assms(2)
    by (auto simp: invariante_def enCola_def enServicio_def pendiente_def sum_list_eq_0_iff)
qed

lemma sum_list_map_update:
  fixes f :: "'a \<Rightarrow> nat"
  shows "k < length xs \<Longrightarrow> sum_list (map f (xs[k := y])) + f (xs ! k) = sum_list (map f xs) + f y"
proof (induction xs arbitrary: k)
  case Nil
  then show ?case by simp
next
  case (Cons a xs)
  then show ?case by (cases k) auto
qed

lemma sum_list_map_remove1:
  fixes f :: "'a \<Rightarrow> nat"
  shows "x \<in> set xs \<Longrightarrow> sum_list (map f (remove1 x xs)) + f x = sum_list (map f xs)"
  by (induction xs) auto

lemma iniciarServicio_marco:
  assumes "iniciarServicio D k s = Inr s'"
  shows "tiempoActual s' = tiempoActual s \<and> duracionSimulacion s' = duracionSimulacion s
    \<and> tasaLlegada s' = tasaLlegada s \<and> probabilidadesEstaciones s' = probabilidadesEstaciones s
    \<and> tiempoFinalReal s' = tiempoFinalReal s \<and> clientesCompletados s' = clientesCompletados s
    \<and> siguienteIdCliente s' = siguienteIdCliente s
    \<and> length (estaciones s') = length (estaciones s)
    \<and> map indiceEstacionActual (clientes s') = map indiceEstacionActual (clientes s)
    \<and> map c_estaciones (clientes s') = map c_estaciones (clientes s)
    \<and> map tiempoLlegada (clientes s') = map tiempoLlegada (clientes s)
    \<and> map tiempoEntradaCola (clientes s') = map tiempoEntradaCola (clientes s)
    \<and> map c_id (clientes s') = map c_id (clientes s)"
  using iniciarServicio_effect[OF assms]
  by (auto simp: Let_def map_update list_update_same_conv split: if_splits)

lemma iniciarServicio_medida:
  assumes "iniciarServicio D k s = Inr s'"
  shows "porLlegar delta s' = porLlegar delta s \<and> porAtender s' \<le> porAtender s"
proof -
  from iniciarServicio_effect[OF assms] have k: "nat k < length (estaciones s)" by simp
  show ?thesis
  proof (cases "s' = s")
    case True
    then show ?thesis by simp
  next
    case False
    with iniciarServicio_effect[OF assms] obtain i resto j where
      q: "colaEspera (estaciones s ! nat k) = i # resto" and
      eff: "(let est' = actualizarTiempoOcupado ((estaciones s ! nat k)
                 \<lparr>colaEspera := resto, servidorOcupado := (servidorOcupado (estaciones s ! nat k))[j := True]\<rparr>) (tiempoActual s);
                s1 = s\<lparr>estaciones := (estaciones s)[nat k := est']\<rparr>
            in if i < 0 then s' = s1
               else nat i < length (clientes s) \<and>
                 s' = s1\<lparr>clientes := (clientes s)[nat i := (clientes s ! nat i)
                           \<lparr>tiempoEsperaTotal := tiempoEsperaTotal (clientes s ! nat i)
                               + (tiempoActual s - tiempoEntradaCola (clientes s ! nat i)),
                            tiempoServicioTotal := tiempoServicioTotal (clientes s ! nat i)
                               + fst (getTiempoServicio D k (rng s))\<rparr>],
                         rng := snd (getTiempoServicio D k (rng s)),
                         colaEventos := push (colaEventos s)
                           \<lparr>tiempo = tiempoActual s + fst (getTiempoServicio D k (rng s)),
                             tipo = FIN_SERVICIO, idCliente = i, idEstacion = k\<rparr>\<rparr>)"
      by auto
    define est' where "est' = actualizarTiempoOcupado ((estaciones s ! nat k)
                 \<lparr>colaEspera := resto, servidorOcupado := (servidorOcupado (estaciones s ! nat k))[j := True]\<rparr>) (tiempoActual s)"
    have ce: "colaEspera est' = resto" by (simp add: est'_def actualizarTiempoOcupado_def)
    have Q: "sum_list (map (\<lambda>e. length (colaEspera e)) ((estaciones s)[nat k := est'])) + 1
          = sum_list (map (\<lambda>e. length (colaEspera e)) (estaciones s))"
      using sum_list_map_update[OF k, of "\<lambda>e. length (colaEspera e)" est'] by (simp add: q ce)
    show ?thesis
    proof (cases "i < 0")
      case True
      then have "s' = s\<lparr>estaciones := (estaciones s)[nat k := est']\<rparr>"
        using eff by (simp add: Let_def est'_def)
      then show ?thesis using Q by (simp add: porLlegar_def porAtender_def)
    next
      case False
      define c' where "c' = (clientes s ! nat i)
                           \<lparr>tiempoEsperaTotal := tiempoEsperaTotal (clientes s ! nat i)
                               + (tiempoActual s - tiempoEntradaCola (clientes s ! nat i)),
                            tiempoServicioTotal := tiempoServicioTotal (clientes s ! nat i)
                               + fst (getTiempoServicio D k (rng s))\<rparr>"
      define ev where "ev = \<lparr>tiempo = tiempoActual s + fst (getTiempoServicio D k (rng s)),
                             tipo = FIN_SERVICIO, idCliente = i, idEstacion = k\<rparr>"
      have il: "nat i < length (clientes s)" using eff False by (simp add: Let_def)
      have s': "s' = s\<lparr>estaciones := (estaciones s)[nat k := est'],
                    clientes := (clientes s)[nat i := c'],
                    rng := snd (getTiempoServicio D k (rng s)),
                    colaEventos := push (colaEventos s) ev\<rparr>"
        using eff False by (simp add: Let_def est'_def c'_def ev_def)
      have C: "sum_list (map (\<lambda>c. length (c_estaciones c) - nat (indiceEstacionActual c)) ((clientes s)[nat i := c']))
          = sum_list (map (\<lambda>c. length (c_estaciones c) - nat (indiceEstacionActual c)) (clientes s))"
        using sum_list_map_update[OF il, of "\<lambda>c. length (c_estaciones c) - nat (indiceEstacionActual c)" c']
        by (simp add: c'_def)
      show ?thesis using Q C by (simp add: s' porLlegar_def porAtender_def peso_def ev_def)
    qed
  qed
qed

lemma peso_siguiente:
  assumes "0 < delta" "delta \<le> gap" "t + gap < H"
  shows "nat \<lceil>(H - (t + gap)) / delta\<rceil> + 1 \<le> nat \<lceil>(H - t) / delta\<rceil>"
proof -
  have "(H - (t + gap)) / delta \<le> (H - t) / delta - 1"
  proof -
    have "(H - (t + gap)) / delta = (H - t) / delta - gap / delta" by (simp add: diff_divide_distrib add_divide_distrib)
    moreover have "1 \<le> gap / delta" using assms by simp
    ultimately show ?thesis by linarith
  qed
  then have "\<lceil>(H - (t + gap)) / delta\<rceil> \<le> \<lceil>(H - t) / delta - 1\<rceil>" by (rule ceiling_mono)
  then have a: "\<lceil>(H - (t + gap)) / delta\<rceil> + 1 \<le> \<lceil>(H - t) / delta\<rceil>" by simp
  have "0 < (H - (t + gap)) / delta" using assms by simp
  then have "0 < \<lceil>(H - (t + gap)) / delta\<rceil>" by simp
  then show ?thesis using a by linarith
qed

lemma iniciarSiDisponible_medida:
  assumes "iniciarSiDisponible D k s = Inr s'"
  shows "porLlegar delta s' = porLlegar delta s \<and> porAtender s' \<le> porAtender s"
  using iniciarSiDisponible_effect[OF assms] iniciarServicio_medida[of D k s s' delta] by auto

lemma atenderCola_medida:
  assumes "atenderCola D k s = Inr s'"
  shows "porLlegar delta s' = porLlegar delta s \<and> porAtender s' \<le> porAtender s"
  using atenderCola_effect[OF assms] iniciarServicio_medida[of D k s s' delta] by auto

lemma iniciarSiDisponible_marco:
  assumes "iniciarSiDisponible D k s = Inr s'"
  shows "tiempoActual s' = tiempoActual s \<and> duracionSimulacion s' = duracionSimulacion s
    \<and> tasaLlegada s' = tasaLlegada s \<and> probabilidadesEstaciones s' = probabilidadesEstaciones s
    \<and> tiempoFinalReal s' = tiempoFinalReal s \<and> clientesCompletados s' = clientesCompletados s
    \<and> siguienteIdCliente s' = siguienteIdCliente s
    \<and> length (estaciones s') = length (estaciones s)
    \<and> map indiceEstacionActual (clientes s') = map indiceEstacionActual (clientes s)
    \<and> map c_estaciones (clientes s') = map c_estaciones (clientes s)
    \<and> map tiempoLlegada (clientes s') = map tiempoLlegada (clientes s)
    \<and> map tiempoEntradaCola (clientes s') = map tiempoEntradaCola (clientes s)
    \<and> map c_id (clientes s') = map c_id (clientes s)"
  using iniciarSiDisponible_effect[OF assms] iniciarServicio_marco[of D k s s'] by auto

lemma atenderCola_marco:
  assumes "atenderCola D k s = Inr s'"
  shows "tiempoActual s' = tiempoActual s \<and> duracionSimulacion s' = duracionSimulacion s
    \<and> tasaLlegada s' = tasaLlegada s \<and> probabilidadesEstaciones s' = probabilidadesEstaciones s
    \<and> tiempoFinalReal s' = tiempoFinalReal s \<and> clientesCompletados s' = clientesCompletados s
    \<and> siguienteIdCliente s' = siguienteIdCliente s
    \<and> length (estaciones s') = length (estaciones s)
    \<and> map indiceEstacionActual (clientes s') = map indiceEstacionActual (clientes s)
    \<and> map c_estaciones (clientes s') = map c_estaciones (clientes s)
    \<and> map tiempoLlegada (clientes s') = map tiempoLlegada (clientes s)
    \<and> map tiempoEntradaCola (clientes s') = map tiempoEntradaCola (clientes s)
    \<and> map c_id (clientes s') = map c_id (clientes s)"
  using atenderCola_effect[OF assms] iniciarServicio_marco[of D k s s'] by auto

lemma crearCliente_marco:
  assumes "crearCliente D s = Inr s'"
  shows "tiempoActual s' = tiempoActual s \<and> duracionSimulacion s' = duracionSimulacion s
    \<and> tasaLlegada s' = tasaLlegada s \<and> probabilidadesEstaciones s' = probabilidadesEstaciones s
    \<and> tiempoFinalReal s' = tiempoFinalReal s \<and> clientesCompletados s' = clientesCompletados s
    \<and> colaEventos s' = colaEventos s
    \<and> length (estaciones s') = length (estaciones s)"
  using crearCliente_effect[OF assms] by auto

lemma programarLlegada_marco:
  "tiempoActual (programarLlegada D s) = tiempoActual s
    \<and> duracionSimulacion (programarLlegada D s) = duracionSimulacion s
    \<and> tasaLlegada (programarLlegada D s) = tasaLlegada s
    \<and> probabilidadesEstaciones (programarLlegada D s) = probabilidadesEstaciones s
    \<and> tiempoFinalReal (programarLlegada D s) = tiempoFinalReal s
    \<and> clientesCompletados (programarLlegada D s) = clientesCompletados s
    \<and> clientes (programarLlegada D s) = clientes s
    \<and> estaciones (programarLlegada D s) = estaciones s"
  by (simp add: programarLlegada_def Let_def split: prod.splits)

lemma programarLlegada_alt:
  "programarLlegada D s =
     (if tiempoActual s + fst (exponential_distribution D (tasaLlegada s) (rng s)) < duracionSimulacion s
      then s\<lparr>rng := snd (exponential_distribution D (tasaLlegada s) (rng s)),
             colaEventos := push (colaEventos s)
               \<lparr>tiempo = tiempoActual s + fst (exponential_distribution D (tasaLlegada s) (rng s)),
                 tipo = LLEGADA, idCliente = - 1, idEstacion = - 1\<rparr>\<rparr>
      else s\<lparr>rng := snd (exponential_distribution D (tasaLlegada s) (rng s))\<rparr>)"
  by (simp add: programarLlegada_def tiempoEntreLlegadas_def Let_def split: prod.splits)

lemma programarLlegada_medida:
  assumes "0 < delta" "\<forall>g. delta \<le> fst (exponential_distribution D (tasaLlegada s) g)"
    "tiempoActual s < duracionSimulacion s"
  shows "porLlegar delta (programarLlegada D s)
           < porLlegar delta s + nat \<lceil>(duracionSimulacion s - tiempoActual s) / delta\<rceil> + 1"
proof -
  define gap where "gap = fst (exponential_distribution D (tasaLlegada s) (rng s))"
  have g: "delta \<le> gap" using assms(2) by (simp add: gap_def)
  show ?thesis
  proof (cases "tiempoActual s + gap < duracionSimulacion s")
    case True
    have "porLlegar delta (programarLlegada D s)
        = porLlegar delta s + (nat \<lceil>(duracionSimulacion s - (tiempoActual s + gap)) / delta\<rceil> + 1)"
      using True by (simp add: programarLlegada_alt gap_def[symmetric] porLlegar_def peso_def)
    then show ?thesis using peso_siguiente[OF assms(1) g True] by linarith
  next
    case False
    have "porLlegar delta (programarLlegada D s) = porLlegar delta s"
      using False by (simp add: programarLlegada_alt gap_def[symmetric] porLlegar_def)
    then show ?thesis by simp
  qed
qed

lemma procesarLlegada_medida:
  assumes R: "procesarLlegada D s = Inr s'" and d: "0 < delta"
    and g: "\<forall>g. delta \<le> fst (exponential_distribution D (tasaLlegada s) g)"
    and t: "tiempoActual s < duracionSimulacion s"
  shows "porLlegar delta s' < porLlegar delta s + nat \<lceil>(duracionSimulacion s - tiempoActual s) / delta\<rceil> + 1"
proof -
  from procesarLlegada_effect[OF R] obtain s2 s3 where
    c: "crearCliente D s = Inr s2" and i: "iniciarSiDisponible D 0 s2 = Inr s3"
    and s': "s' = programarLlegada D s3" by blast
  have m2: "porLlegar delta s2 = porLlegar delta s"
    using crearCliente_marco[OF c] by (simp add: porLlegar_def)
  have m3: "porLlegar delta s3 = porLlegar delta s2"
    using iniciarSiDisponible_medida[OF i] by simp
  have f: "tiempoActual s3 = tiempoActual s" "duracionSimulacion s3 = duracionSimulacion s"
    "tasaLlegada s3 = tasaLlegada s"
    using crearCliente_marco[OF c] iniciarSiDisponible_marco[OF i] by simp_all
  from programarLlegada_medida[of delta D s3] d g t f m2 m3 show ?thesis by (simp add: s')
qed

lemma enrutarCliente_medida:
  assumes R: "enrutarCliente e s = Inr (s3, sig)" and I: "invariante s"
    and P: "pendiente (clientes s) (idCliente e) = 1"
  shows "porLlegar delta s3 = porLlegar delta s \<and> porAtender s3 + 1 \<le> porAtender s"
proof -
  define i where "i = idCliente e"
  define k where "k = idEstacion e"
  define c0 where "c0 = clientes s ! nat i"
  define c where "c = c0\<lparr>indiceEstacionActual := indiceEstacionActual c0 + 1\<rparr>"
  define es1 where "es1 = (estaciones s)[nat k := finalizarServicio (estaciones s ! nat k) (tiempoActual s)]"
  define f :: "Cliente \<Rightarrow> nat" where "f = (\<lambda>c. length (c_estaciones c) - nat (indiceEstacionActual c))"
  define q :: "Estacion \<Rightarrow> nat" where "q = (\<lambda>e. length (colaEspera e))"
  from P have i0: "0 \<le> i" and il: "nat i < length (clientes s)"
    and lt: "indiceEstacionActual c0 < int (length (c_estaciones c0))"
    using pendiente_pos[of "clientes s" i] by (simp_all add: i_def c0_def)
  have "c0 \<in> set (clientes s)" using il by (simp add: c0_def)
  then have ok0: "cliente_ok c0" using I by (simp add: invariante_def)
  have fc: "f c + 1 = f c0" using lt ok0 by (simp add: f_def c_def cliente_ok_def) linarith
  from enrutarCliente_effect[OF R] have kl: "nat k < length (estaciones s)" by (simp add: k_def)
  have q1: "sum_list (map q es1) = sum_list (map q (estaciones s))"
    using sum_list_map_update[OF kl, of q "finalizarServicio (estaciones s ! nat k) (tiempoActual s)"]
    by (simp add: es1_def q_def)
  have l1: "length es1 = length (estaciones s)" by (simp add: es1_def)
  have eff: "if indiceEstacionActual c < int (length (c_estaciones c))
         then nat (c_estaciones c ! nat (indiceEstacionActual c)) < length (estaciones s)
           \<and> s3 = s\<lparr>clientes := (clientes s)[nat i := c\<lparr>tiempoEntradaCola := tiempoActual s\<rparr>],
                      estaciones := es1[nat (c_estaciones c ! nat (indiceEstacionActual c)) :=
                         agregarCliente (es1 ! nat (c_estaciones c ! nat (indiceEstacionActual c)))
                           (c_id c) (tiempoActual s)]\<rparr>
         else s3 = s\<lparr>estaciones := es1, clientes := (clientes s)[nat i := c],
                       clientesCompletados := clientesCompletados s @ [c]\<rparr>"
    using enrutarCliente_effect[OF R]
    by (simp add: Let_def i_def k_def c0_def c_def es1_def split: if_splits)
  show ?thesis
  proof (cases "indiceEstacionActual c < int (length (c_estaciones c))")
    case True
    define sg where "sg = nat (c_estaciones c ! nat (indiceEstacionActual c))"
    have sl: "sg < length es1" using eff True l1 by (simp add: sg_def)
    have s3: "s3 = s\<lparr>clientes := (clientes s)[nat i := c\<lparr>tiempoEntradaCola := tiempoActual s\<rparr>],
                      estaciones := es1[sg := agregarCliente (es1 ! sg) (c_id c) (tiempoActual s)]\<rparr>"
      using eff True by (simp add: sg_def)
    have Q: "sum_list (map q (es1[sg := agregarCliente (es1 ! sg) (c_id c) (tiempoActual s)]))
        = sum_list (map q (estaciones s)) + 1"
      using sum_list_map_update[OF sl, of q "agregarCliente (es1 ! sg) (c_id c) (tiempoActual s)"] q1
      by (simp add: q_def agregarCliente_def)
    have C: "sum_list (map f ((clientes s)[nat i := c\<lparr>tiempoEntradaCola := tiempoActual s\<rparr>])) + 1
        = sum_list (map f (clientes s))"
    proof -
      have "f (c\<lparr>tiempoEntradaCola := tiempoActual s\<rparr>) = f c" by (simp add: f_def)
      then show ?thesis
        using sum_list_map_update[OF il, of f "c\<lparr>tiempoEntradaCola := tiempoActual s\<rparr>"] fc
        by (simp add: c0_def[symmetric])
    qed
    show ?thesis using Q C
      by (simp add: s3 porLlegar_def porAtender_def f_def[symmetric] q_def[symmetric])
  next
    case False
    have s3: "s3 = s\<lparr>estaciones := es1, clientes := (clientes s)[nat i := c],
                       clientesCompletados := clientesCompletados s @ [c]\<rparr>"
      using eff False by simp
    have C: "sum_list (map f ((clientes s)[nat i := c])) + 1 = sum_list (map f (clientes s))"
      using sum_list_map_update[OF il, of f c] fc by (simp add: c0_def[symmetric])
    show ?thesis using q1 C
      by (simp add: s3 porLlegar_def porAtender_def f_def[symmetric] q_def[symmetric])
  qed
qed

lemma enrutarCliente_marco:
  assumes "enrutarCliente e s = Inr (s3, sig)"
  shows "tiempoActual s3 = tiempoActual s \<and> duracionSimulacion s3 = duracionSimulacion s
    \<and> tasaLlegada s3 = tasaLlegada s \<and> probabilidadesEstaciones s3 = probabilidadesEstaciones s
    \<and> tiempoFinalReal s3 = tiempoFinalReal s \<and> colaEventos s3 = colaEventos s
    \<and> siguienteIdCliente s3 = siguienteIdCliente s \<and> rng s3 = rng s
    \<and> length (estaciones s3) = length (estaciones s)
    \<and> length (clientes s3) = length (clientes s)"
  using enrutarCliente_effect[OF assms] by (auto simp: Let_def split: if_splits)

lemma procesarLlegada_marco:
  assumes "procesarLlegada D s = Inr s'"
  shows "tiempoActual s' = tiempoActual s \<and> duracionSimulacion s' = duracionSimulacion s
    \<and> tasaLlegada s' = tasaLlegada s \<and> probabilidadesEstaciones s' = probabilidadesEstaciones s
    \<and> tiempoFinalReal s' = tiempoFinalReal s \<and> clientesCompletados s' = clientesCompletados s
    \<and> length (estaciones s') = length (estaciones s)"
proof -
  from procesarLlegada_effect[OF assms] obtain s2 s3 where
    c: "crearCliente D s = Inr s2" and i: "iniciarSiDisponible D 0 s2 = Inr s3"
    and s': "s' = programarLlegada D s3" by blast
  show ?thesis
    using crearCliente_marco[OF c] iniciarSiDisponible_marco[OF i] programarLlegada_marco[of D s3]
    by (simp add: s')
qed

lemma procesarFinServicio_marco:
  assumes "procesarFinServicio D e s = Inr s'"
  shows "tiempoActual s' = tiempoActual s \<and> duracionSimulacion s' = duracionSimulacion s
    \<and> tasaLlegada s' = tasaLlegada s \<and> probabilidadesEstaciones s' = probabilidadesEstaciones s
    \<and> tiempoFinalReal s' = tiempoFinalReal s \<and> siguienteIdCliente s' = siguienteIdCliente s
    \<and> length (estaciones s') = length (estaciones s)
    \<and> length (clientes s') = length (clientes s)"
proof -
  from procesarFinServicio_effect[OF assms] obtain s3 sig s4 where
    r: "enrutarCliente e s = Inr (s3, sig)"
    and m: "case sig of Some k \<Rightarrow> iniciarSiDisponible D k s3 = Inr s4 | None \<Rightarrow> s4 = s3"
    and a: "atenderCola D (idEstacion e) s4 = Inr s'" by blast
  have 1: "tiempoActual s4 = tiempoActual s3 \<and> duracionSimulacion s4 = duracionSimulacion s3
    \<and> tasaLlegada s4 = tasaLlegada s3 \<and> probabilidadesEstaciones s4 = probabilidadesEstaciones s3
    \<and> tiempoFinalReal s4 = tiempoFinalReal s3 \<and> siguienteIdCliente s4 = siguienteIdCliente s3
    \<and> length (estaciones s4) = length (estaciones s3)
    \<and> map c_id (clientes s4) = map c_id (clientes s3)"
    using m iniciarSiDisponible_marco[of D _ s3 s4] by (cases sig) auto
  then have "length (clientes s4) = length (clientes s3)" using map_eq_imp_length_eq by blast
  moreover have "length (clientes s') = length (clientes s4)"
    using atenderCola_marco[OF a] map_eq_imp_length_eq by blast
  ultimately show ?thesis
    using enrutarCliente_marco[OF r] 1 atenderCola_marco[OF a] by simp
qed

lemma procesarFinServicio_medida:
  assumes R: "procesarFinServicio D e s = Inr s'" and I: "invariante s"
    and P: "pendiente (clientes s) (idCliente e) = 1"
  shows "porLlegar delta s' = porLlegar delta s \<and> porAtender s' + 1 \<le> porAtender s"
proof -
  from procesarFinServicio_effect[OF R] obtain s3 sig s4 where
    r: "enrutarCliente e s = Inr (s3, sig)"
    and m: "case sig of Some k \<Rightarrow> iniciarSiDisponible D k s3 = Inr s4 | None \<Rightarrow> s4 = s3"
    and a: "atenderCola D (idEstacion e) s4 = Inr s'" by blast
  have 1: "porLlegar delta s4 = porLlegar delta s3 \<and> porAtender s4 \<le> porAtender s3"
    using m iniciarSiDisponible_medida[of D _ s3 s4 delta] by (cases sig) auto
  show ?thesis
    using enrutarCliente_medida[OF r I P, of delta] 1 atenderCola_medida[OF a, of delta] by linarith
qed

lemma paso_medida:
  assumes I: "invariante s" and ne: "colaEventos s \<noteq> []" and R: "paso D s = Inr s'"
    and d: "0 < delta" and g: "\<forall>g. delta \<le> fst (exponential_distribution D (tasaLlegada s) g)"
  shows "(porLlegar delta s' < porLlegar delta s
          \<or> porLlegar delta s' = porLlegar delta s \<and> porAtender s' < porAtender s)
         \<and> tasaLlegada s' = tasaLlegada s \<and> duracionSimulacion s' = duracionSimulacion s"
proof -
  define e where "e = top (colaEventos s)"
  define s1 where "s1 = s\<lparr>colaEventos := pop (colaEventos s), tiempoActual := tiempo e\<rparr>"
  define H where "H = duracionSimulacion s"
  have ein: "e \<in> set (colaEventos s)" using top_in[OF ne] by (simp add: e_def)
  have A1: "porLlegar delta s1 + peso delta H e = porLlegar delta s"
    using sum_list_map_pop[OF ne, of "peso delta H"]
    by (simp add: porLlegar_def s1_def e_def H_def)
  have L1: "length (colaEventos s1) + 1 = length (colaEventos s)"
    using length_pop[OF ne] by (simp add: s1_def)
  have B1: "porAtender s1 + 1 = porAtender s" using L1 by (simp add: porAtender_def s1_def)
  have f1: "tasaLlegada s1 = tasaLlegada s" "duracionSimulacion s1 = H" "tiempoActual s1 = tiempo e"
    by (simp_all add: s1_def H_def)
  show ?thesis
  proof (cases "tipo e")
    case LLEGADA
    show ?thesis
    proof (cases "tiempo e < H")
      case True
      then have R1: "procesarLlegada D s1 = Inr s'"
        using R LLEGADA by (simp add: paso_def Let_def e_def[symmetric] s1_def[symmetric] f1)
      from procesarLlegada_medida[OF R1 d] g True
      have "porLlegar delta s' < porLlegar delta s1 + nat \<lceil>(H - tiempo e) / delta\<rceil> + 1"
        by (simp add: f1)
      moreover have "peso delta H e = nat \<lceil>(H - tiempo e) / delta\<rceil> + 1"
        using LLEGADA True by (simp add: peso_def)
      ultimately have "porLlegar delta s' < porLlegar delta s" using A1 by linarith
      then show ?thesis using procesarLlegada_marco[OF R1] by (simp add: f1 H_def)
    next
      case False
      then have "s' = s1"
        using R LLEGADA by (simp add: paso_def Let_def e_def[symmetric] s1_def[symmetric] f1)
      moreover have "peso delta H e = 1" using LLEGADA False by (simp add: peso_def)
      ultimately show ?thesis using A1 by (simp add: f1 H_def)
    qed
  next
    case FIN_SERVICIO
    then have R1: "procesarFinServicio D e s1 = Inr s'"
      using R by (simp add: paso_def Let_def e_def[symmetric] s1_def[symmetric])
    have rm: "enServicio (colaEventos s1) (idCliente e) + 1 = enServicio (colaEventos s) (idCliente e)"
      using enServicio_pop[OF ne, of "idCliente e"] FIN_SERVICIO by (simp add: s1_def e_def)
    have "pendiente (clientes s) (idCliente e) \<le> 1" by (simp add: pendiente_def)
    with W_bound[OF I, of "idCliente e"] rm
    have P: "pendiente (clientes s1) (idCliente e) = 1" by (simp add: s1_def)
    from paso_inv[OF I ne, of D] have True by simp
    have sub: "set (colaEventos s1) \<subseteq> set (colaEventos s)"
      using set_pop[OF ne] by (simp add: s1_def)
    have I1: "invariante s1"
    proof -
      have "\<forall>x. enCola (estaciones s1) x + enServicio (colaEventos s1) x \<le> pendiente (clientes s1) x"
      proof
        fix x
        show "enCola (estaciones s1) x + enServicio (colaEventos s1) x \<le> pendiente (clientes s1) x"
          using W_bound[OF I, of x] enServicio_pop[OF ne, of x]
          by (simp add: s1_def e_def split: if_splits)
      qed
      then show ?thesis using I sub unfolding invariante_def by (auto simp: s1_def)
    qed
    have "peso delta H e = 0" using FIN_SERVICIO by (simp add: peso_def)
    then show ?thesis
      using procesarFinServicio_medida[OF R1 I1 P, of delta] A1 B1 procesarFinServicio_marco[OF R1]
      by (simp add: f1 H_def)
  qed
qed

lemma ejecutar_termina:
  assumes d: "0 < delta" and g: "\<forall>g. delta \<le> fst (exponential_distribution D lam g)"
    and I: "invariante s" and l: "tasaLlegada s = lam"
  shows "\<exists>r. ejecutar D s = Some r"
proof -
  define R where "R = inv_image (less_than <*lex*> less_than)
                        (\<lambda>s :: 'a SimulacionColas. (porLlegar delta s, porAtender s))"
  have wfR: "wf R" unfolding R_def by (intro wf_inv_image wf_lex_prod wf_less_than)
  have "invariante s \<longrightarrow> tasaLlegada s = lam \<longrightarrow> (\<exists>r. ejecutar D s = Some r)"
  proof (induct s rule: wf_induct_rule[OF wfR])
    case (1 s)
    show ?case
    proof (intro impI)
      assume Is: "invariante s" and ls: "tasaLlegada s = lam"
      show "\<exists>r. ejecutar D s = Some r"
      proof (cases "colaEventos s = []")
        case True
        then show ?thesis by (subst ejecutar.simps) simp
      next
        case False
        from paso_inv[OF Is False, of D] obtain s' where
          p: "paso D s = Inr s'" and I': "invariante s'" by blast
        from paso_medida[OF Is False p d] g ls
        have m: "(s', s) \<in> R" and l': "tasaLlegada s' = lam" by (auto simp: R_def)
        from 1[OF m] I' l' obtain r where "ejecutar D s' = Some r" by blast
        then show ?thesis using False p by (subst ejecutar.simps) simp
      qed
    qed
  qed
  then show ?thesis using I l by blast
qed


lemma pasos_invariante:
  "invariante s \<Longrightarrow> \<exists>s'. pasos D n s = Inr s' \<and> invariante s'"
proof (induction n arbitrary: s)
  case 0
  then show ?case by simp
next
  case (Suc n)
  show ?case
  proof (cases "colaEventos s = []")
    case True
    then show ?thesis using Suc.prems by simp
  next
    case False
    from paso_inv[OF Suc.prems False, of D] obtain s2 where
      p: "paso D s = Inr s2" and I2: "invariante s2" by blast
    from Suc.IH[OF I2] show ?thesis using False p by simp
  qed
qed

lemma pasos_regla:
  assumes "pasos D n s = Inr s'" and "I s"
    and "\<And>s s'. I s \<Longrightarrow> colaEventos s \<noteq> [] \<Longrightarrow> paso D s = Inr s' \<Longrightarrow> I s'"
  shows "I s'"
  using assms(1,2)
proof (induction n arbitrary: s)
  case 0
  then show ?case by simp
next
  case (Suc n)
  show ?case
  proof (cases "colaEventos s = []")
    case True
    then show ?thesis using Suc.prems by simp
  next
    case False
    then obtain s2 where p: "paso D s = Inr s2" and r: "pasos D n s2 = Inr s'"
      using Suc.prems(1) by (auto split: sum.splits)
    have "I s2" by (rule assms(3)[OF Suc.prems(2) False p])
    from Suc.IH[OF r this] show ?thesis .
  qed
qed

lemma noDecrece_refl: "noDecrece es es"
  by (simp add: noDecrece_def)

lemma noDecrece_trans: "noDecrece a b \<Longrightarrow> noDecrece b c \<Longrightarrow> noDecrece a c"
  by (auto simp: noDecrece_def intro: order_trans)

lemma noDecrece_update:
  "k < length es \<Longrightarrow> tiempoTotalOcupado (es ! k) \<le> tiempoTotalOcupado e' \<Longrightarrow> noDecrece es (es[k := e'])"
  by (auto simp: noDecrece_def nth_list_update)

lemma estaciones_update_tiempo:
  "\<forall>e \<in> set es. estacion_tiempo t e \<Longrightarrow> estacion_tiempo t e' \<Longrightarrow>
   \<forall>e \<in> set (es[k := e']). estacion_tiempo t e"
  using set_update_subset_insert[of es k e'] by auto

lemma estacion_tiempo_actualizar:
  assumes "estacion_tiempo t e"
  shows "estacion_tiempo t (actualizarTiempoOcupado (e\<lparr>colaEspera := q, servidorOcupado := v\<rparr>) t)
     \<and> tiempoTotalOcupado e \<le> tiempoTotalOcupado
           (actualizarTiempoOcupado (e\<lparr>colaEspera := q, servidorOcupado := v\<rparr>) t)"
  using assms by (auto simp: estacion_tiempo_def actualizarTiempoOcupado_def)

lemma estacion_tiempo_finalizar:
  assumes "estacion_tiempo t e"
  shows "estacion_tiempo t (finalizarServicio e t)
     \<and> tiempoTotalOcupado e \<le> tiempoTotalOcupado (finalizarServicio e t)"
  using assms
  by (auto simp: estacion_tiempo_def finalizarServicio_def actualizarTiempoOcupado_def Let_def
        split: option.splits)

lemma estacion_tiempo_agregar:
  assumes "estacion_tiempo t e"
  shows "estacion_tiempo t (agregarCliente e i t')
     \<and> tiempoTotalOcupado (agregarCliente e i t') = tiempoTotalOcupado e"
  using assms by (auto simp: estacion_tiempo_def agregarCliente_def)

lemma estacion_tiempo_avanza:
  "estacion_tiempo t e \<Longrightarrow> 0 \<le> t \<Longrightarrow> t \<le> t' \<Longrightarrow> estacion_tiempo t' e"
  by (auto simp: estacion_tiempo_def)

lemma getTiempoServicio_nonneg:
  assumes "rangos D"
  shows "0 \<le> fst (getTiempoServicio D k g)"
proof -
  have e: "\<And>mu. 0 < mu \<Longrightarrow> 0 \<le> fst (exponential_distribution D mu g)"
    and ge: "\<And>p. 0 \<le> fst (geometric_distribution D p g)"
    using assms by (auto simp: rangos_def)
  show ?thesis
    using e[of "4 / 10"] e[of "1333 / 1000"] ge[of "1 / 10"]
    by (auto simp: getTiempoServicio_def tiempoServicioExp_def tiempoServicioNormDisc_def
          tiempoServicioBinom_def tiempoServicioGeom_def Let_def split: prod.splits)
qed

lemma sin_error: "\<not> isl x \<Longrightarrow> x = Inr (projr x)"
  by (cases x) simp_all

lemma rangos_generadorFijo: "0 \<le> gap \<Longrightarrow> rangos (generadorFijo gap)"
  by (simp add: rangos_def generadorFijo_def)

lemma ejemplo_inicializado:
  "inicializar (generadorFijo gap) configInicial
     (SimulacionColas_ctor (generadorFijo gap) 480 3 42) = Inr (ejemplo gap)"
  unfolding ejemplo_def
  by (rule sin_error)
     (simp add: inicializar_def Estacion_ctor_def configInicial_def tiempoEntreLlegadas_def
        split: prod.splits)

text \<open>
  C3, at an input where the code departs from it. A station with one server is created at
  time 0 and a customer is queued; the service starts at time 300 and ends at time 303, so
  the server is busy for 3 minutes. \<open>iniciarServicio\<close> and \<open>finalizarServicio\<close> set the flag of
  the server before they call \<open>actualizarTiempoOcupado\<close>, so the time since the last change
  is multiplied by the number of servers busy after the change, not during that time: the
  start adds \<open>1 * (300 - 0)\<close> and the end adds \<open>0 * (303 - 300)\<close>. The accumulator is 300,
  not 3, and \<open>getUtilizacion\<close> at 303 is 300 / 303.
\<close>

theorem tiempoOcupado_despues_del_cambio:
  "tiempoTotalOcupado
     (snd (Estacion_iniciarServicio (agregarCliente (projr (Estacion_ctor 0 1)) 7 0) 300)) = 300
   \<and> tiempoTotalOcupado
       (finalizarServicio
          (snd (Estacion_iniciarServicio (agregarCliente (projr (Estacion_ctor 0 1)) 7 0) 300)) 303)
       = 300
   \<and> getUtilizacion
       (finalizarServicio
          (snd (Estacion_iniciarServicio (agregarCliente (projr (Estacion_ctor 0 1)) 7 0) 300)) 303)
       303 = 300 / 303"
  by (simp add: Estacion_ctor_def agregarCliente_def Estacion_iniciarServicio_def
      finalizarServicio_def actualizarTiempoOcupado_def servidoresOcupados_def getUtilizacion_def
      Let_def)

lemma estaciones_largo:
  assumes "alcanzable D s"
  shows "length (estaciones s) = 5 \<or> (colaEventos s = [] \<and> clientesCompletados s = [])"
  using assms
proof (induction rule: alcanzable.induct)
  case (construido duracion lambda semilla)
  then show ?case by (simp add: SimulacionColas_ctor_def)
next
  case (inicializado s config s')
  then show ?case using inicializar_effect[of D config s s'] by auto
next
  case (evento s s')
  then have l: "length (estaciones s) = 5" by simp
  define e where "e = top (colaEventos s)"
  define s1 where "s1 = s\<lparr>colaEventos := pop (colaEventos s), tiempoActual := tiempo e\<rparr>"
  have "length (estaciones s') = length (estaciones s1)"
  proof (cases "tipo e")
    case LLEGADA
    then show ?thesis using evento(3) procesarLlegada_marco[of D s1 s']
      by (auto simp: paso_def Let_def e_def[symmetric] s1_def[symmetric] split: if_splits)
  next
    case FIN_SERVICIO
    then show ?thesis using evento(3) procesarFinServicio_marco[of D e s1 s']
      by (auto simp: paso_def Let_def e_def[symmetric] s1_def[symmetric])
  qed
  then show ?case using l by (simp add: s1_def)
next
  case (terminado s)
  then show ?case by simp
qed

text \<open>
  C7. \<open>getEstadisticas\<close> signals no error in any state an engine can be in: after the
  constructor, after \<open>inicializar\<close>, between two events of a run and after it. The total is
  the number of completed customers, the utilization vector has length 5, and with no
  completed customer the averages, the variance and every utilization are 0.
\<close>

theorem getEstadisticas_sin_error:
  assumes "alcanzable D s"
  shows "\<not> isl (getEstadisticas s)
    \<and> totalClientes (projr (getEstadisticas s)) = int (length (clientesCompletados s))
    \<and> length (utilizacionEstaciones (projr (getEstadisticas s))) = 5
    \<and> (clientesCompletados s = [] \<longrightarrow>
          tiempoEsperaPromedio (projr (getEstadisticas s)) = 0
          \<and> varianzaTiempoEspera (projr (getEstadisticas s)) = 0
          \<and> tiempoSistemaPromedio (projr (getEstadisticas s)) = 0
          \<and> utilizacionEstaciones (projr (getEstadisticas s)) = replicate 5 0)"
proof (cases "clientesCompletados s = []")
  case True
  then show ?thesis by (simp add: getEstadisticas_def)
next
  case False
  then have "length (estaciones s) = 5" using estaciones_largo[OF assms] by simp
  then show ?thesis using False by (simp add: getEstadisticas_def Let_def)
qed

theorem getEstadisticas_sin_error_witness:
  "getEstadisticas (SimulacionColas_ctor (generadorFijo 300) 480 3 42)
     = Inr \<lparr>tiempoEsperaPromedio = 0, varianzaTiempoEspera = 0,
            utilizacionEstaciones = [0, 0, 0, 0, 0], totalClientes = 0,
            tiempoSistemaPromedio = 0\<rparr>"
proof -
  have a: "alcanzable (generadorFijo 300) (SimulacionColas_ctor (generadorFijo 300) 480 3 42)"
    by (rule alcanzable.construido)
  have c: "clientesCompletados (SimulacionColas_ctor (generadorFijo 300) 480 3 42) = []"
    by (simp add: SimulacionColas_ctor_def)
  show ?thesis
    using getEstadisticas_sin_error[OF a] c
    by (simp add: getEstadisticas_def SimulacionColas_ctor_def numeral_eq_Suc)
qed









lemma enrutarCliente_progreso:
  assumes R: "enrutarCliente e s = Inr (s3, sig)" and I: "invariante s"
    and P: "pendiente (clientes s) (idCliente e) = 1"
  shows "\<exists>i a. i < length (clientes s) \<and> a = indiceEstacionActual (clientes s ! i)
     \<and> 0 \<le> a \<and> a < int (length (c_estaciones (clientes s ! i)))
     \<and> map indiceEstacionActual (clientes s3) = (map indiceEstacionActual (clientes s))[i := a + 1]
     \<and> map c_estaciones (clientes s3) = map c_estaciones (clientes s)
     \<and> (if a + 1 < int (length (c_estaciones (clientes s ! i)))
         then clientesCompletados s3 = clientesCompletados s
         else \<exists>x. clientesCompletados s3 = clientesCompletados s @ [x] \<and> c_id x = int i
                \<and> indiceEstacionActual x = a + 1
                \<and> c_estaciones x = c_estaciones (clientes s ! i))"
proof -
  define i where "i = nat (idCliente e)"
  define c0 where "c0 = clientes s ! i"
  from P have i0: "0 \<le> idCliente e" and il: "i < length (clientes s)"
    and lt: "indiceEstacionActual c0 < int (length (c_estaciones c0))"
    using pendiente_pos[of "clientes s" "idCliente e"] by (simp_all add: i_def c0_def)
  have "c0 \<in> set (clientes s)" using il by (simp add: c0_def)
  then have ok0: "cliente_ok c0" using I by (simp add: invariante_def)
  then have a0: "0 \<le> indiceEstacionActual c0" by (simp add: cliente_ok_def)
  have cid: "c_id c0 = int i" using I il by (simp add: invariante_def c0_def)
  have m1: "\<And>c'. indiceEstacionActual c' = indiceEstacionActual c0 + 1 \<Longrightarrow>
      map indiceEstacionActual ((clientes s)[i := c'])
        = (map indiceEstacionActual (clientes s))[i := indiceEstacionActual c0 + 1]"
    by (simp add: map_update)
  have m2: "\<And>c'. c_estaciones c' = c_estaciones c0 \<Longrightarrow>
      map c_estaciones ((clientes s)[i := c']) = map c_estaciones (clientes s)"
    using il by (simp add: map_update c0_def list_update_same_conv)
  show ?thesis
  proof (cases "indiceEstacionActual c0 + 1 < int (length (c_estaciones c0))")
    case True
    then have "clientes s3 = (clientes s)[i := c0\<lparr>indiceEstacionActual := indiceEstacionActual c0 + 1,
          tiempoEntradaCola := tiempoActual s\<rparr>]" and "clientesCompletados s3 = clientesCompletados s"
      using enrutarCliente_effect[OF R] by (simp_all add: Let_def i_def c0_def)
    then show ?thesis using il lt a0 True m1 m2
      by (intro exI[of _ i] exI[of _ "indiceEstacionActual c0"]) (simp add: c0_def[symmetric])
  next
    case False
    then have "clientes s3 = (clientes s)[i := c0\<lparr>indiceEstacionActual := indiceEstacionActual c0 + 1\<rparr>]"
      and "clientesCompletados s3
             = clientesCompletados s @ [c0\<lparr>indiceEstacionActual := indiceEstacionActual c0 + 1\<rparr>]"
      using enrutarCliente_effect[OF R] by (simp_all add: Let_def i_def c0_def)
    then show ?thesis using il lt a0 False m1 m2 cid
      by (intro exI[of _ i] exI[of _ "indiceEstacionActual c0"]) (simp add: c0_def[symmetric])
  qed
qed

lemma paso_progreso:
  assumes I: "invariante s" and ne: "colaEventos s \<noteq> []" and R: "paso D s = Inr s'"
  shows "(map indiceEstacionActual (clientes s') = map indiceEstacionActual (clientes s)
            \<and> map c_estaciones (clientes s') = map c_estaciones (clientes s)
            \<and> clientesCompletados s' = clientesCompletados s)
     \<or> (\<exists>r. r \<noteq> [] \<and> map indiceEstacionActual (clientes s') = map indiceEstacionActual (clientes s) @ [0]
            \<and> map c_estaciones (clientes s') = map c_estaciones (clientes s) @ [r]
            \<and> clientesCompletados s' = clientesCompletados s)
     \<or> (\<exists>i a. i < length (clientes s) \<and> a = indiceEstacionActual (clientes s ! i)
         \<and> 0 \<le> a \<and> a < int (length (c_estaciones (clientes s ! i)))
         \<and> map indiceEstacionActual (clientes s') = (map indiceEstacionActual (clientes s))[i := a + 1]
         \<and> map c_estaciones (clientes s') = map c_estaciones (clientes s)
         \<and> (if a + 1 < int (length (c_estaciones (clientes s ! i)))
             then clientesCompletados s' = clientesCompletados s
             else \<exists>x. clientesCompletados s' = clientesCompletados s @ [x] \<and> c_id x = int i
                    \<and> indiceEstacionActual x = a + 1
                    \<and> c_estaciones x = c_estaciones (clientes s ! i)))"
proof -
  define e where "e = top (colaEventos s)"
  define s1 where "s1 = s\<lparr>colaEventos := pop (colaEventos s), tiempoActual := tiempo e\<rparr>"
  have cs1: "clientes s1 = clientes s" "clientesCompletados s1 = clientesCompletados s"
    by (simp_all add: s1_def)
  show ?thesis
  proof (cases "tipo e")
    case LLEGADA
    show ?thesis
    proof (cases "tiempoActual s1 < duracionSimulacion s1")
      case True
      then have R1: "procesarLlegada D s1 = Inr s'"
        using R LLEGADA by (simp add: paso_def Let_def e_def[symmetric] s1_def[symmetric])
      from procesarLlegada_effect[OF R1] obtain s2 s3 where
        c: "crearCliente D s1 = Inr s2" and i: "iniciarSiDisponible D 0 s2 = Inr s3"
        and s': "s' = programarLlegada D s3" by blast
      from crearCliente_effect[OF c] generarRuta_effect obtain r where
        2: "r \<noteq> []"
           "map indiceEstacionActual (clientes s2) = map indiceEstacionActual (clientes s) @ [0]"
           "map c_estaciones (clientes s2) = map c_estaciones (clientes s) @ [r]"
           "clientesCompletados s2 = clientesCompletados s"
        by (fastforce simp: cs1 Cliente_ctor_def)
      show ?thesis
        using 2 iniciarSiDisponible_marco[OF i] programarLlegada_marco[of D s3]
        by (intro disjI2 disjI1 exI[of _ r]) (simp add: s')
    next
      case False
      then have "s' = s1"
        using R LLEGADA by (simp add: paso_def Let_def e_def[symmetric] s1_def[symmetric])
      then show ?thesis by (simp add: cs1)
    qed
  next
    case FIN_SERVICIO
    then have R1: "procesarFinServicio D e s1 = Inr s'"
      using R by (simp add: paso_def Let_def e_def[symmetric] s1_def[symmetric])
    have "pendiente (clientes s) (idCliente e) \<le> 1" by (simp add: pendiente_def)
    with W_bound[OF I, of "idCliente e"] enServicio_pop[OF ne, of "idCliente e"] FIN_SERVICIO
    have P: "pendiente (clientes s1) (idCliente e) = 1" by (simp add: s1_def e_def)
    have I1: "invariante s1"
    proof -
      have "\<forall>x. enCola (estaciones s1) x + enServicio (colaEventos s1) x \<le> pendiente (clientes s1) x"
      proof
        fix x
        show "enCola (estaciones s1) x + enServicio (colaEventos s1) x \<le> pendiente (clientes s1) x"
          using W_bound[OF I, of x] enServicio_pop[OF ne, of x]
          by (simp add: s1_def e_def split: if_splits)
      qed
      then show ?thesis using I set_pop[OF ne] unfolding invariante_def by (auto simp: s1_def)
    qed
    from procesarFinServicio_effect[OF R1] obtain s3 sig s4 where
      r: "enrutarCliente e s1 = Inr (s3, sig)"
      and m: "case sig of Some k \<Rightarrow> iniciarSiDisponible D k s3 = Inr s4 | None \<Rightarrow> s4 = s3"
      and a: "atenderCola D (idEstacion e) s4 = Inr s'" by blast
    have 4: "map indiceEstacionActual (clientes s4) = map indiceEstacionActual (clientes s3)
        \<and> map c_estaciones (clientes s4) = map c_estaciones (clientes s3)
        \<and> clientesCompletados s4 = clientesCompletados s3"
      using m iniciarSiDisponible_marco[of D _ s3 s4] by (cases sig) auto
    have 5: "map indiceEstacionActual (clientes s') = map indiceEstacionActual (clientes s3)
        \<and> map c_estaciones (clientes s') = map c_estaciones (clientes s3)
        \<and> clientesCompletados s' = clientesCompletados s3"
      using 4 atenderCola_marco[OF a] by simp
    from enrutarCliente_progreso[OF r I1 P] obtain i a where
      p: "i < length (clientes s)" "a = indiceEstacionActual (clientes s ! i)"
         "0 \<le> a" "a < int (length (c_estaciones (clientes s ! i)))"
         "map indiceEstacionActual (clientes s3) = (map indiceEstacionActual (clientes s))[i := a + 1]"
         "map c_estaciones (clientes s3) = map c_estaciones (clientes s)"
         "if a + 1 < int (length (c_estaciones (clientes s ! i)))
          then clientesCompletados s3 = clientesCompletados s
          else \<exists>x. clientesCompletados s3 = clientesCompletados s @ [x] \<and> c_id x = int i
                 \<and> indiceEstacionActual x = a + 1
                 \<and> c_estaciones x = c_estaciones (clientes s ! i)"
      unfolding cs1 by blast
    have "\<exists>i a. i < length (clientes s) \<and> a = indiceEstacionActual (clientes s ! i)
         \<and> 0 \<le> a \<and> a < int (length (c_estaciones (clientes s ! i)))
         \<and> map indiceEstacionActual (clientes s') = (map indiceEstacionActual (clientes s))[i := a + 1]
         \<and> map c_estaciones (clientes s') = map c_estaciones (clientes s)
         \<and> (if a + 1 < int (length (c_estaciones (clientes s ! i)))
             then clientesCompletados s' = clientesCompletados s
             else \<exists>x. clientesCompletados s' = clientesCompletados s @ [x] \<and> c_id x = int i
                    \<and> indiceEstacionActual x = a + 1
                    \<and> c_estaciones x = c_estaciones (clientes s ! i))"
      apply (rule exI[of _ i])
      apply (rule exI[of _ a])
      using p 5 by (simp split: if_splits)
    then show ?thesis by blast
  qed
qed

lemma map_eq_nth:
  "map f xs = map f ys \<Longrightarrow> length xs = length ys \<and> (\<forall>i < length ys. f (xs ! i) = f (ys ! i))"
  by (metis length_map nth_map)

lemma map_eq_append_nth:
  assumes "map f xs' = map f xs @ [a]"
  shows "length xs' = Suc (length xs) \<and> (\<forall>i < length xs. f (xs' ! i) = f (xs ! i))
     \<and> f (xs' ! length xs) = a"
proof -
  have l: "length xs' = Suc (length xs)" using assms by (metis length_map length_append_singleton)
  have "\<And>i. i < Suc (length xs) \<Longrightarrow> f (xs' ! i) = (map f xs @ [a]) ! i"
    using assms l by (metis nth_map)
  then show ?thesis using l by (auto simp: nth_append)
qed

lemma map_eq_update_nth:
  assumes "map f xs' = (map f xs)[i := a]" "i < length xs"
  shows "length xs' = length xs \<and> f (xs' ! i) = a \<and> (\<forall>j < length xs. j \<noteq> i \<longrightarrow> f (xs' ! j) = f (xs ! j))"
proof -
  have l: "length xs' = length xs" using assms(1) by (metis length_map length_list_update)
  have "\<And>j. j < length xs \<Longrightarrow> f (xs' ! j) = ((map f xs)[i := a]) ! j"
    using assms(1) l by (metis nth_map)
  then show ?thesis using l assms(2) by (auto simp: nth_list_update)
qed

lemma inicializar_ctor_inv:
  assumes "inicializar D config (SimulacionColas_ctor D duracion lambda semilla) = Inr s1"
  shows "invariante s1"
  by (rule inicializar_inv[OF assms]) (simp add: SimulacionColas_ctor_def)

lemma pasos_inv:
  assumes "invariante s1" "pasos D n s1 = Inr s"
  shows "invariante s"
proof (rule pasos_regla[OF assms(2), where I = invariante, OF assms(1)])
  fix s s' :: "'a SimulacionColas"
  assume a: "invariante s" "colaEventos s \<noteq> []" "paso D s = Inr s'"
  from paso_inv[OF a(1,2), of D] a(3) show "invariante s'" by auto
qed

lemma avance_igual:
  fixes f :: "'a \<Rightarrow> int" and g :: "'a \<Rightarrow> 'b list" and h :: "'a \<Rightarrow> int"
  assumes "map f xs' = map f xs" "map g xs' = map g xs" "cs' = cs"
  shows "length xs \<le> length xs'
     \<and> (\<forall>i < length xs. f (xs ! i) \<le> f (xs' ! i) \<and> g (xs' ! i) = g (xs ! i))
     \<and> (\<forall>i < length xs'. length xs \<le> i \<longrightarrow> f (xs' ! i) = 0)
     \<and> ((cs' = cs
           \<and> (\<forall>i < length xs'. f (xs' ! i) = int (length (g (xs' ! i)))
                 \<longrightarrow> i < length xs \<and> f (xs ! i) = f (xs' ! i)))
          \<or> (\<exists>i x. i < length xs
                \<and> f (xs ! i) < int (length (g (xs ! i)))
                \<and> f (xs' ! i) = int (length (g (xs' ! i)))
                \<and> cs' = cs @ [x]
                \<and> h x = int i
                \<and> f x = f (xs' ! i)
                \<and> g x = g (xs' ! i)))"
  using map_eq_nth[OF assms(1)] map_eq_nth[OF assms(2)] assms(3) by simp

lemma avance_nuevo:
  fixes f :: "'a \<Rightarrow> int" and g :: "'a \<Rightarrow> 'b list" and h :: "'a \<Rightarrow> int"
  assumes "r \<noteq> []" "map f xs' = map f xs @ [0]" "map g xs' = map g xs @ [r]" "cs' = cs"
  shows "length xs \<le> length xs'
     \<and> (\<forall>i < length xs. f (xs ! i) \<le> f (xs' ! i) \<and> g (xs' ! i) = g (xs ! i))
     \<and> (\<forall>i < length xs'. length xs \<le> i \<longrightarrow> f (xs' ! i) = 0)
     \<and> ((cs' = cs
           \<and> (\<forall>i < length xs'. f (xs' ! i) = int (length (g (xs' ! i)))
                 \<longrightarrow> i < length xs \<and> f (xs ! i) = f (xs' ! i)))
          \<or> (\<exists>i x. i < length xs
                \<and> f (xs ! i) < int (length (g (xs ! i)))
                \<and> f (xs' ! i) = int (length (g (xs' ! i)))
                \<and> cs' = cs @ [x]
                \<and> h x = int i
                \<and> f x = f (xs' ! i)
                \<and> g x = g (xs' ! i)))"
proof -
  note i = map_eq_append_nth[OF assms(2)] and c = map_eq_append_nth[OF assms(3)]
  have l: "length xs' = Suc (length xs)" using i by simp
  have z: "f (xs' ! length xs) = 0" "g (xs' ! length xs) = r" using i c by simp_all
  have nz: "f (xs' ! length xs) \<noteq> int (length (g (xs' ! length xs)))"
    using z assms(1) by simp
  have 1: "\<forall>i < length xs. f (xs ! i) \<le> f (xs' ! i) \<and> g (xs' ! i) = g (xs ! i)"
    using i c by simp
  have 2: "\<forall>i < length xs'. length xs \<le> i \<longrightarrow> f (xs' ! i) = 0"
  proof (intro allI impI)
    fix j assume "j < length xs'" "length xs \<le> j"
    then have "j = length xs" using l by simp
    then show "f (xs' ! j) = 0" using z by simp
  qed
  have 3: "\<forall>i < length xs'. f (xs' ! i) = int (length (g (xs' ! i)))
                 \<longrightarrow> i < length xs \<and> f (xs ! i) = f (xs' ! i)"
  proof (intro allI impI)
    fix j assume j: "j < length xs'" and e: "f (xs' ! j) = int (length (g (xs' ! j)))"
    have "j \<noteq> length xs" using e nz by blast
    then have "j < length xs" using j l by simp
    then show "j < length xs \<and> f (xs ! j) = f (xs' ! j)" using i by simp
  qed
  have 0: "length xs \<le> length xs'" using l by simp
  show ?thesis
    by (rule conjI[OF 0], rule conjI[OF 1], rule conjI[OF 2], rule disjI1, rule conjI[OF assms(4) 3])
qed

lemma avance_paso:
  fixes f :: "'a \<Rightarrow> int" and g :: "'a \<Rightarrow> 'b list" and h :: "'a \<Rightarrow> int"
  assumes "i < length xs" "a = f (xs ! i)" "a < int (length (g (xs ! i)))"
    "map f xs' = (map f xs)[i := a + 1]" "map g xs' = map g xs"
    "if a + 1 < int (length (g (xs ! i))) then cs' = cs
     else \<exists>x. cs' = cs @ [x] \<and> h x = int i \<and> f x = a + 1 \<and> g x = g (xs ! i)"
  shows "length xs \<le> length xs'
     \<and> (\<forall>i < length xs. f (xs ! i) \<le> f (xs' ! i) \<and> g (xs' ! i) = g (xs ! i))
     \<and> (\<forall>i < length xs'. length xs \<le> i \<longrightarrow> f (xs' ! i) = 0)
     \<and> ((cs' = cs
           \<and> (\<forall>i < length xs'. f (xs' ! i) = int (length (g (xs' ! i)))
                 \<longrightarrow> i < length xs \<and> f (xs ! i) = f (xs' ! i)))
          \<or> (\<exists>i x. i < length xs
                \<and> f (xs ! i) < int (length (g (xs ! i)))
                \<and> f (xs' ! i) = int (length (g (xs' ! i)))
                \<and> cs' = cs @ [x]
                \<and> h x = int i
                \<and> f x = f (xs' ! i)
                \<and> g x = g (xs' ! i)))"
proof -
  note u = map_eq_update_nth[OF assms(4) assms(1)] and c = map_eq_nth[OF assms(5)]
  have l: "length xs' = length xs" using u by simp
  have fi: "f (xs' ! i) = a + 1" using u by simp
  have gi: "g (xs' ! i) = g (xs ! i)" using c assms(1) by simp
  have 1: "\<forall>j < length xs. f (xs ! j) \<le> f (xs' ! j) \<and> g (xs' ! j) = g (xs ! j)"
  proof (intro allI impI)
    fix j assume j: "j < length xs"
    show "f (xs ! j) \<le> f (xs' ! j) \<and> g (xs' ! j) = g (xs ! j)"
    proof (cases "j = i")
      case True then show ?thesis using fi gi assms(2) by simp
    next
      case False then show ?thesis using u c j by simp
    qed
  qed
  have 2: "\<forall>i < length xs'. length xs \<le> i \<longrightarrow> f (xs' ! i) = 0" using l by simp
  have 0: "length xs \<le> length xs'" using l by simp
  show ?thesis
  proof (cases "a + 1 < int (length (g (xs ! i)))")
    case True
    then have cc: "cs' = cs" using assms(6) by simp
    have 3: "\<forall>j < length xs'. f (xs' ! j) = int (length (g (xs' ! j)))
                 \<longrightarrow> j < length xs \<and> f (xs ! j) = f (xs' ! j)"
    proof (intro allI impI)
      fix j assume j: "j < length xs'" and e: "f (xs' ! j) = int (length (g (xs' ! j)))"
      have "j \<noteq> i" using e fi gi True by auto
      then show "j < length xs \<and> f (xs ! j) = f (xs' ! j)" using u j l by simp
    qed
    show ?thesis
      by (rule conjI[OF 0], rule conjI[OF 1], rule conjI[OF 2], rule disjI1, rule conjI[OF cc 3])
  next
    case False
    then obtain x where x: "cs' = cs @ [x]" "h x = int i" "f x = a + 1" "g x = g (xs ! i)"
      using assms(6) by auto
    have e: "a + 1 = int (length (g (xs ! i)))" using False assms(3) by simp
    have 4: "i < length xs \<and> f (xs ! i) < int (length (g (xs ! i)))
                \<and> f (xs' ! i) = int (length (g (xs' ! i)))
                \<and> cs' = cs @ [x] \<and> h x = int i \<and> f x = f (xs' ! i) \<and> g x = g (xs' ! i)"
      using assms(1,2,3) fi gi x e by simp
    show ?thesis
      by (rule conjI[OF 0], rule conjI[OF 1], rule conjI[OF 2], rule disjI2, rule exI[of _ i], rule exI[of _ x], rule 4)
  qed
qed

text \<open>
  C9. In a run, every event leaves the route progress of every customer as the claim says.
  From any state the engine reaches after \<open>inicializar\<close> the next event is processed
  without error, and after it: every index is between 0 and the length of the route; no
  customer is removed, no index of a customer already there is smaller and no route has
  changed; a customer created by the event has index 0; every completed customer has its
  index at the length of its route; and either no customer was appended to the completed
  customers and no index has reached the length of its route in this event, or one customer
  was appended, the index of that customer was below the length of its route before the
  event and is at it after, and the appended record carries that customer's id, index and
  route.
\<close>

theorem progreso_ruta:
  assumes "inicializar D config (SimulacionColas_ctor D duracion lambda semilla) = Inr s1"
    and "pasos D n s1 = Inr s" and "colaEventos s \<noteq> []"
  shows "\<exists>s'. paso D s = Inr s'
     \<and> (\<forall>c \<in> set (clientes s'). 0 \<le> indiceEstacionActual c
            \<and> indiceEstacionActual c \<le> int (length (c_estaciones c)))
     \<and> (\<forall>c \<in> set (clientesCompletados s').
            indiceEstacionActual c = int (length (c_estaciones c)))
     \<and> length (clientes s) \<le> length (clientes s')
     \<and> (\<forall>i < length (clientes s).
            indiceEstacionActual (clientes s ! i) \<le> indiceEstacionActual (clientes s' ! i)
            \<and> c_estaciones (clientes s' ! i) = c_estaciones (clientes s ! i))
     \<and> (\<forall>i < length (clientes s'). length (clientes s) \<le> i \<longrightarrow>
            indiceEstacionActual (clientes s' ! i) = 0)
     \<and> ((clientesCompletados s' = clientesCompletados s
           \<and> (\<forall>i < length (clientes s').
                 indiceEstacionActual (clientes s' ! i) = int (length (c_estaciones (clientes s' ! i)))
                 \<longrightarrow> i < length (clientes s)
                      \<and> indiceEstacionActual (clientes s ! i) = indiceEstacionActual (clientes s' ! i)))
          \<or> (\<exists>i x. i < length (clientes s)
                \<and> indiceEstacionActual (clientes s ! i) < int (length (c_estaciones (clientes s ! i)))
                \<and> indiceEstacionActual (clientes s' ! i) = int (length (c_estaciones (clientes s' ! i)))
                \<and> clientesCompletados s' = clientesCompletados s @ [x]
                \<and> c_id x = int i
                \<and> indiceEstacionActual x = indiceEstacionActual (clientes s' ! i)
                \<and> c_estaciones x = c_estaciones (clientes s' ! i)))"
proof -
  have I: "invariante s" by (rule pasos_inv[OF inicializar_ctor_inv[OF assms(1)] assms(2)])
  from paso_inv[OF I assms(3), of D] obtain s' where R: "paso D s = Inr s'" and I': "invariante s'"
    by blast
  have A: "\<forall>c \<in> set (clientes s'). 0 \<le> indiceEstacionActual c
             \<and> indiceEstacionActual c \<le> int (length (c_estaciones c))"
    using I' by (simp add: invariante_def cliente_ok_def)
  have B: "\<forall>c \<in> set (clientesCompletados s'). indiceEstacionActual c = int (length (c_estaciones c))"
    using I' by (simp add: invariante_def)
  have C: "length (clientes s) \<le> length (clientes s')
     \<and> (\<forall>i < length (clientes s).
            indiceEstacionActual (clientes s ! i) \<le> indiceEstacionActual (clientes s' ! i)
            \<and> c_estaciones (clientes s' ! i) = c_estaciones (clientes s ! i))
     \<and> (\<forall>i < length (clientes s'). length (clientes s) \<le> i \<longrightarrow>
            indiceEstacionActual (clientes s' ! i) = 0)
     \<and> ((clientesCompletados s' = clientesCompletados s
           \<and> (\<forall>i < length (clientes s').
                 indiceEstacionActual (clientes s' ! i) = int (length (c_estaciones (clientes s' ! i)))
                 \<longrightarrow> i < length (clientes s)
                      \<and> indiceEstacionActual (clientes s ! i) = indiceEstacionActual (clientes s' ! i)))
          \<or> (\<exists>i x. i < length (clientes s)
                \<and> indiceEstacionActual (clientes s ! i) < int (length (c_estaciones (clientes s ! i)))
                \<and> indiceEstacionActual (clientes s' ! i) = int (length (c_estaciones (clientes s' ! i)))
                \<and> clientesCompletados s' = clientesCompletados s @ [x]
                \<and> c_id x = int i
                \<and> indiceEstacionActual x = indiceEstacionActual (clientes s' ! i)
                \<and> c_estaciones x = c_estaciones (clientes s' ! i)))"
    using paso_progreso[OF I assms(3) R]
  proof (elim disjE exE conjE)
    assume a: "map indiceEstacionActual (clientes s') = map indiceEstacionActual (clientes s)"
      "map c_estaciones (clientes s') = map c_estaciones (clientes s)"
      "clientesCompletados s' = clientesCompletados s"
    show ?thesis by (rule avance_igual[where h = c_id, OF a])
  next
    fix r assume a: "r \<noteq> []"
      "map indiceEstacionActual (clientes s') = map indiceEstacionActual (clientes s) @ [0]"
      "map c_estaciones (clientes s') = map c_estaciones (clientes s) @ [r]"
      "clientesCompletados s' = clientesCompletados s"
    show ?thesis by (rule avance_nuevo[where h = c_id, OF a])
  next
    fix i a
    assume p: "i < length (clientes s)" "a = indiceEstacionActual (clientes s ! i)" "0 \<le> a"
      "a < int (length (c_estaciones (clientes s ! i)))"
      "map indiceEstacionActual (clientes s') = (map indiceEstacionActual (clientes s))[i := a + 1]"
      "map c_estaciones (clientes s') = map c_estaciones (clientes s)"
      "if a + 1 < int (length (c_estaciones (clientes s ! i)))
       then clientesCompletados s' = clientesCompletados s
       else \<exists>x. clientesCompletados s' = clientesCompletados s @ [x] \<and> c_id x = int i
              \<and> indiceEstacionActual x = a + 1 \<and> c_estaciones x = c_estaciones (clientes s ! i)"
    show ?thesis by (rule avance_paso[where h = c_id, OF p(1,2,4,5,6,7)])
  qed
  show ?thesis
    by (rule exI[of _ s'], rule conjI[OF R], rule conjI[OF A], rule conjI[OF B], rule C)
qed

theorem progreso_ruta_witness:
  "\<exists>s'. paso (generadorFijo 300) (projr (pasos (generadorFijo 300) 3 (ejemplo 300))) = Inr s'
     \<and> (\<forall>c \<in> set (clientes s'). 0 \<le> indiceEstacionActual c
            \<and> indiceEstacionActual c \<le> int (length (c_estaciones c)))
     \<and> (\<forall>c \<in> set (clientesCompletados s').
            indiceEstacionActual c = int (length (c_estaciones c)))"
proof -
  have a: "pasos (generadorFijo 300) 3 (ejemplo 300)
             = Inr (projr (pasos (generadorFijo 300) 3 (ejemplo 300)))"
    by (rule sin_error) code_simp
  have b: "colaEventos (projr (pasos (generadorFijo 300) 3 (ejemplo 300))) \<noteq> []"
    by code_simp
  from progreso_ruta[OF ejemplo_inicializado[of 300] a b]
  obtain s' where "paso (generadorFijo 300) (projr (pasos (generadorFijo 300) 3 (ejemplo 300))) = Inr s'"
    "\<forall>c \<in> set (clientes s'). 0 \<le> indiceEstacionActual c
            \<and> indiceEstacionActual c \<le> int (length (c_estaciones c))"
    "\<forall>c \<in> set (clientesCompletados s'). indiceEstacionActual c = int (length (c_estaciones c))"
    by (elim exE conjE)
  then show ?thesis by (intro exI conjI)
qed

text \<open>
  C10. The binomial service time is the draw floored at 1: for every \<open>n\<close>, \<open>p\<close> and state of
  the generator \<open>tiempoServicioBinom\<close> returns \<open>max 1 draw\<close>, which is at least 1, and the
  service time of POSTRES, which is \<open>tiempoServicioBinom 5 0.6\<close>, is at least 1 even where
  the draw is 0.
\<close>

theorem tiempoServicioBinom_floor:
  "fst (tiempoServicioBinom D n p g) = max 1 (fst (binomial_distribution D n p g))
   \<and> 1 \<le> fst (tiempoServicioBinom D n p g)
   \<and> getTiempoServicio D POSTRES g =
       (real_of_int (fst (tiempoServicioBinom D 5 (6 / 10) g)), snd (tiempoServicioBinom D 5 (6 / 10) g))
   \<and> 1 \<le> fst (getTiempoServicio D POSTRES g)"
  by (simp add: tiempoServicioBinom_def getTiempoServicio_def split: prod.splits)


end
